theory Spec2Isabelle
  imports Main "HOL-Library.AList"
begin

section \<open>JavaScript values\<close>

text \<open>
  The values the two modules handle.  Dictionaries are association lists (insertion order
  is kept, keys are expected to be distinct).  \<open>JFun\<close> is an opaque callable.  \<open>JRef\<close> is
  a reference to a mutable heap object; only the join integrator's row cache uses it, the
  stage-two query forge works on reference-free values and passes the query explicitly.
\<close>

datatype jsval =
    JUndef
  | JNull
  | JBool bool
  | JNum int
  | JStr string
  | JFun nat
  | JArr "jsval list"
  | JObj "(string \<times> jsval) list"
  | JRef nat

type_synonym dict = "(string \<times> jsval) list"

text \<open>\<open>d.k\<close> on a dictionary: the stored value, or \<open>undefined\<close> for an absent key.\<close>

definition lookup :: "dict \<Rightarrow> string \<Rightarrow> jsval" where
  "lookup d k = (case map_of d k of None \<Rightarrow> JUndef | Some v \<Rightarrow> v)"

text \<open>lodash type predicates.\<close>

fun isUndefined :: "jsval \<Rightarrow> bool" where
  "isUndefined JUndef = True"
| "isUndefined _ = False"

fun isObject :: "jsval \<Rightarrow> bool" where
  "isObject (JObj _) = True"
| "isObject (JArr _) = True"
| "isObject (JFun _) = True"
| "isObject (JRef _) = True"
| "isObject _ = False"

fun isArray :: "jsval \<Rightarrow> bool" where
  "isArray (JArr _) = True"
| "isArray _ = False"

fun isFunction :: "jsval \<Rightarrow> bool" where
  "isFunction (JFun _) = True"
| "isFunction _ = False"

fun isString :: "jsval \<Rightarrow> bool" where
  "isString (JStr _) = True"
| "isString _ = False"

text \<open>
  Own enumerable keys in JavaScript's order: keys that are array indices first, in
  ascending numeric order, then the remaining keys in insertion order.
\<close>

definition is_digit :: "char \<Rightarrow> bool" where
  "is_digit c = (48 \<le> (of_char c :: nat) \<and> (of_char c :: nat) \<le> 57)"

definition digits_val :: "string \<Rightarrow> nat" where
  "digits_val s = foldl (\<lambda>n c. 10 * n + ((of_char c :: nat) - 48)) 0 s"

definition is_array_index :: "string \<Rightarrow> bool" where
  "is_array_index s =
     (s \<noteq> [] \<and> list_all is_digit s \<and> (length s = 1 \<or> hd s \<noteq> CHR ''0'')
      \<and> digits_val s < 4294967295)"

definition own_keys :: "dict \<Rightarrow> string list" where
  "own_keys d =
     (let ks = map fst d
      in sort_key digits_val (filter is_array_index ks)
         @ filter (\<lambda>k. \<not> is_array_index k) ks)"

text \<open>\<open>_.difference(xs, ys)\<close>: the elements of \<open>xs\<close> that are not in \<open>ys\<close>, in order.\<close>

definition difference :: "string list \<Rightarrow> string list \<Rightarrow> string list" where
  "difference xs ys = filter (\<lambda>x. x \<notin> set ys) xs"

section \<open>Errors and external collaborators\<close>

text \<open>
  What a collaborator throws: only its \<open>code\<close> property is inspected by the forge
  (\<open>None\<close>: no code).
\<close>

type_synonym exn = "string option"

datatype violation =
    UsingNotString
  | ModelNotRegistered
  | MethodNotString
  | UnrecognizedMethod
  | ExtraneousKeys "string list"
  | CriteriaWouldResultInNothing
  | CriteriaUnexpected
  | PopulateLookupUnexpected
  | SubcriteriaWouldResultInNothing
  | SubcriteriaUnexpected

text \<open>
  What the forge throws: \<open>UsageError c\<close> is \<open>buildUsageError(c, ...)\<close>, the typed usage
  error with code \<open>c\<close>; \<open>ConsistencyViolation\<close> is a plain \<open>new Error('Consistency
  violation: ...')\<close>; \<open>Rethrown e\<close> is a collaborator's exception passed on by \<open>throw e\<close>;
  \<open>TypeError\<close> is the runtime's error on reading a property of \<open>undefined\<close>/\<open>null\<close> or
  calling a non-function.
\<close>

datatype error =
    UsageError string
  | ConsistencyViolation violation
  | Rethrown exn
  | TypeError

fun error_code :: "error \<Rightarrow> string option" where
  "error_code (UsageError c) = Some c"
| "error_code (ConsistencyViolation _) = None"
| "error_code (Rethrown e) = e"
| "error_code TypeError = None"

record modeldef =
  primaryKey :: string

text \<open>
  An attribute definition: its declared \<open>type\<close> and the \<open>model\<close> / \<open>collection\<close> markers
  (\<open>None\<close> when the property is absent).
\<close>

record attrdef =
  attr_type :: "string option"
  attr_model :: "string option"
  attr_collection :: "string option"

text \<open>JavaScript truthiness of an optional string property.\<close>

fun truthy_str :: "string option \<Rightarrow> bool" where
  "truthy_str None = False"
| "truthy_str (Some s) = (s \<noteq> [])"

text \<open>
  The modules the forge requires are not part of the sources; they are parameters.  Each
  returns \<open>Inl e\<close> when it throws.  \<open>production\<close> is \<open>process.env.NODE_ENV === 'production'\<close>.
\<close>

record orm =
  getModel :: "string \<Rightarrow> exn + modeldef"
  getAttribute :: "string \<Rightarrow> string \<Rightarrow> exn + attrdef"
  isCapableOfOptimizedPopulate :: "string \<Rightarrow> string \<Rightarrow> bool"
  normalizePkValues :: "jsval \<Rightarrow> string option \<Rightarrow> exn + jsval"
  normalizeCriteria :: "jsval \<Rightarrow> string \<Rightarrow> bool \<Rightarrow> exn + jsval"
  normalizeNewRecord :: "jsval \<Rightarrow> string \<Rightarrow> bool \<Rightarrow> exn + jsval"
  normalizeValueToSet :: "jsval \<Rightarrow> string \<Rightarrow> string \<Rightarrow> bool \<Rightarrow> exn + jsval"
  production :: bool

text \<open>The calls made to the collaborators, and the warnings printed, in order.\<close>

datatype event =
    CallGetModel string
  | CallGetAttribute string string
  | CallIsCapable string string
  | CallNormalizePkValues jsval "string option"
  | CallNormalizeCriteria jsval string bool
  | CallNormalizeNewRecord jsval string bool
  | CallNormalizeValueToSet jsval string string bool
  | Warn string

fun is_normalizer_call :: "event \<Rightarrow> bool" where
  "is_normalizer_call (CallNormalizePkValues _ _) = True"
| "is_normalizer_call (CallNormalizeCriteria _ _ _) = True"
| "is_normalizer_call (CallNormalizeNewRecord _ _ _) = True"
| "is_normalizer_call (CallNormalizeValueToSet _ _ _ _) = True"
| "is_normalizer_call _ = False"

text \<open>
  The forge mutates the query in place and returns nothing: the state is the query and the
  log of events; \<open>Threw e s\<close> is an exception \<open>e\<close> raised in state \<open>s\<close>.
\<close>

record fstate =
  qry :: dict
  log :: "event list"

datatype outcome = Threw error fstate | Done fstate

fun andThen :: "outcome \<Rightarrow> (fstate \<Rightarrow> outcome) \<Rightarrow> outcome" where
  "andThen (Threw e s) f = Threw e s"
| "andThen (Done s) f = f s"

definition emit :: "event \<Rightarrow> fstate \<Rightarrow> fstate" where
  "emit ev s = s\<lparr>log := log s @ [ev]\<rparr>"

definition setKey :: "string \<Rightarrow> jsval \<Rightarrow> fstate \<Rightarrow> fstate" where
  "setKey k v s = s\<lparr>qry := AList.update k v (qry s)\<rparr>"

section \<open>forgeStageTwoQuery\<close>

text \<open>\<open>_getQueryKeys\<close>: the query keys of a method, \<open>None\<close> for the \<open>default\<close> branch.\<close>

definition getQueryKeys :: "string \<Rightarrow> string list option" where
  "getQueryKeys m =
    (if m = ''find'' then Some [''criteria'', ''populates'']
     else if m = ''findOne'' then Some [''criteria'', ''populates'']
     else if m = ''stream'' then Some [''criteria'', ''populates'', ''eachRecordFn'', ''eachBatchFn'']
     else if m = ''count'' then Some [''criteria'']
     else if m = ''sum'' then Some [''numericAttrName'', ''criteria'']
     else if m = ''avg'' then Some [''numericAttrName'', ''criteria'']
     else if m = ''create'' then Some [''newRecord'']
     else if m = ''createEach'' then Some [''newRecords'']
     else if m = ''findOrCreate'' then Some [''criteria'', ''newRecord'']
     else if m = ''update'' then Some [''criteria'', ''valuesToSet'']
     else if m = ''destroy'' then Some [''criteria'']
     else if m = ''addToCollection'' then Some [''targetRecordIds'', ''collectionAttrName'', ''associatedIds'']
     else if m = ''removeFromCollection'' then Some [''targetRecordIds'', ''collectionAttrName'', ''associatedIds'']
     else if m = ''replaceCollection'' then Some [''targetRecordIds'', ''collectionAttrName'', ''associatedIds'']
     else None)"

text \<open>What the per-key sections share: the collaborators and the values fixed by the checks.\<close>

record env =
  env_orm :: orm
  ensureTypeSafety :: bool
  env_using :: string
  env_method :: string
  WLModel :: modeldef
  queryKeys :: "string list"

text \<open>
  Reading a property of the criteria held in the query (\<open>query.criteria.select\<close>): a
  dictionary gives the stored value, \<open>undefined\<close> and \<open>null\<close> throw, any other value has
  no such property.
\<close>

fun getProp :: "jsval \<Rightarrow> string \<Rightarrow> error + jsval" where
  "getProp JUndef k = Inl TypeError"
| "getProp JNull k = Inl TypeError"
| "getProp (JObj d) k = Inr (lookup d k)"
| "getProp _ k = Inr JUndef"

text \<open>
  The criteria section: the default, the two compatibility checks made before
  normalizing, then \<open>normalizeCriteria\<close> with its failures re-classified.
\<close>

definition PROJECTION_COMPATIBLE_METHODS :: "string list" where
  "PROJECTION_COMPATIBLE_METHODS = [''find'', ''findOne'', ''stream'']"

definition LIMIT_COMPATIBLE_METHODS :: "string list" where
  "LIMIT_COMPATIBLE_METHODS = [''find'', ''stream'', ''sum'', ''avg'', ''update'', ''destroy'']"

text \<open>\<open>_.isObject(c) && !_.isUndefined(c.k)\<close> for the raw criteria.\<close>

definition specifies :: "jsval \<Rightarrow> string \<Rightarrow> bool" where
  "specifies c k = (case c of JObj d \<Rightarrow> \<not> isUndefined (lookup d k) | _ \<Rightarrow> False)"

definition forgeCriteria :: "env \<Rightarrow> fstate \<Rightarrow> outcome" where
  "forgeCriteria E s0 =
    (if ''criteria'' \<notin> set (queryKeys E) then Done s0
     else
       let s1 = (if isUndefined (lookup (qry s0) ''criteria'')
                 then setKey ''criteria'' (JObj []) s0 else s0);
           c = lookup (qry s1) ''criteria''
       in
       if (specifies c ''select'' \<or> specifies c ''omit'')
          \<and> env_method E \<notin> set PROJECTION_COMPATIBLE_METHODS
       then Threw (UsageError ''E_INVALID_CRITERIA'') s1
       else if specifies c ''limit'' \<and> env_method E \<notin> set LIMIT_COMPATIBLE_METHODS
       then Threw (UsageError ''E_INVALID_CRITERIA'') s1
       else
         let s2 = emit (CallNormalizeCriteria c (env_using E) (ensureTypeSafety E)) s1
         in (case normalizeCriteria (env_orm E) c (env_using E) (ensureTypeSafety E) of
               Inr c' \<Rightarrow> Done (setKey ''criteria'' c' s2)
             | Inl e \<Rightarrow>
                 if e = Some ''E_HIGHLY_IRREGULAR''
                 then Threw (UsageError ''E_INVALID_CRITERIA'') s2
                 else if e = Some ''E_WOULD_RESULT_IN_NOTHING''
                 then Threw (ConsistencyViolation CriteriaWouldResultInNothing) s2
                 else Threw (ConsistencyViolation CriteriaUnexpected) s2))"

text \<open>
  The lodash and property reads the populates section performs on the normalized criteria.
  \<open>contains\<close> is \<open>_.contains(c, k)\<close> for a string \<open>k\<close>: membership in an array, membership
  among the values of a dictionary, substring of a string, \<open>false\<close> for anything else.
\<close>

definition is_substring :: "string \<Rightarrow> string \<Rightarrow> bool" where
  "is_substring k s = list_ex (\<lambda>i. take (length k) (drop i s) = k) [0 ..< Suc (length s)]"

fun contains :: "jsval \<Rightarrow> string \<Rightarrow> bool" where
  "contains (JArr xs) k = (JStr k \<in> set xs)"
| "contains (JObj d) k = (JStr k \<in> set (map snd d))"
| "contains (JStr s) k = is_substring k s"
| "contains _ k = False"

text \<open>\<open>v[0]\<close>.\<close>

fun index0 :: "jsval \<Rightarrow> error + jsval" where
  "index0 JUndef = Inl TypeError"
| "index0 JNull = Inl TypeError"
| "index0 (JArr []) = Inr JUndef"
| "index0 (JArr (x # xs)) = Inr x"
| "index0 (JStr []) = Inr JUndef"
| "index0 (JStr (c # cs)) = Inr (JStr [c])"
| "index0 (JObj d) = Inr (lookup d ''0'')"
| "index0 _ = Inr JUndef"

text \<open>\<open>v.push(k)\<close>: only an array has the method.\<close>

fun push :: "jsval \<Rightarrow> string \<Rightarrow> error + jsval" where
  "push (JArr xs) k = Inr (JArr (xs @ [JStr k]))"
| "push _ k = Inl TypeError"

text \<open>\<open>_.keys(v)[0]\<close>.\<close>

fun first_key :: "jsval \<Rightarrow> jsval" where
  "first_key (JObj d) = (case own_keys d of [] \<Rightarrow> JUndef | k # ks \<Rightarrow> JStr k)"
| "first_key (JArr (x # xs)) = JStr ''0''"
| "first_key (JStr (c # cs)) = JStr ''0''"
| "first_key _ = JUndef"

text \<open>
  \<open>_.any(sort, function (comparatorDirective) { return _.keys(comparatorDirective)[0] ===
  populateAttrName; })\<close>: over the elements of an array, the values of a dictionary, the
  characters of a string; \<open>false\<close> for anything else.
\<close>

fun mentionedInSort :: "jsval \<Rightarrow> string \<Rightarrow> bool" where
  "mentionedInSort (JArr xs) k = list_ex (\<lambda>d. first_key d = JStr k) xs"
| "mentionedInSort (JObj d) k = list_ex (\<lambda>d. first_key d = JStr k) (map snd d)"
| "mentionedInSort (JStr s) k = list_ex (\<lambda>c. first_key (JStr [c]) = JStr k) s"
| "mentionedInSort _ k = False"

text \<open>
  \<open>wasSubcriteriaSortOmitted\<close>: the subcriteria is no object, or its \<open>sort\<close> is undefined or
  \<open>[]\<close>.  An array's \<open>sort\<close> is its method, which is neither.
\<close>

fun sortOmitted :: "jsval \<Rightarrow> bool" where
  "sortOmitted (JObj d) = (lookup d ''sort'' = JUndef \<or> lookup d ''sort'' = JArr [])"
| "sortOmitted (JArr xs) = False"
| "sortOmitted _ = True"

definition setPopulate :: "string \<Rightarrow> jsval \<Rightarrow> fstate \<Rightarrow> fstate" where
  "setPopulate k v s =
     (case lookup (qry s) ''populates'' of
        JObj pd \<Rightarrow> setKey ''populates'' (JObj (AList.update k v pd)) s
      | _ \<Rightarrow> s)"

definition deletePopulate :: "string \<Rightarrow> fstate \<Rightarrow> fstate" where
  "deletePopulate k s =
     (case lookup (qry s) ''populates'' of
        JObj pd \<Rightarrow> setKey ''populates'' (JObj (AList.delete k pd)) s
      | _ \<Rightarrow> s)"

definition getPopulate :: "fstate \<Rightarrow> string \<Rightarrow> jsval" where
  "getPopulate s k =
     (case lookup (qry s) ''populates'' of JObj pd \<Rightarrow> lookup pd k | _ \<Rightarrow> JUndef)"

text \<open>The production-only warning about subcriteria of associations without optimized populate.\<close>

definition productionCheck :: "env \<Rightarrow> string \<Rightarrow> bool \<Rightarrow> fstate \<Rightarrow> outcome" where
  "productionCheck E k wasSubcriteriaSortOmitted s0 =
    (if \<not> production (env_orm E) then Done s0
     else
       let s1 = emit (CallIsCapable k (env_using E)) s0
       in if isCapableOfOptimizedPopulate (env_orm E) k (env_using E) then Done s1
          else
            let subcriteria = getPopulate s1 k
            in (case getProp subcriteria ''skip'' of
                  Inl e \<Rightarrow> Threw e s1
                | Inr skip \<Rightarrow>
                    if skip \<noteq> JNum 0
                       \<or> getProp subcriteria ''limit'' \<noteq> Inr (JNum 9007199254740991)
                       \<or> \<not> wasSubcriteriaSortOmitted
                    then Done (emit (Warn k) s1)
                    else Done s1))"

text \<open>The right-hand side of a populate directive, once its attribute definition is known.\<close>

definition checkRhs :: "env \<Rightarrow> string \<Rightarrow> attrdef \<Rightarrow> fstate \<Rightarrow> outcome" where
  "checkRhs E k populateAttrDef s0 =
    (if truthy_str (attr_model populateAttrDef) then
       (if getPopulate s0 k = JObj [] then Done (setPopulate k (JBool True) s0)
        else if getPopulate s0 k \<noteq> JBool True
        then Threw (UsageError ''E_INVALID_POPULATES'') s0
        else Done s0)
     else
       let otherModelIdentity = (case attr_collection populateAttrDef of Some m \<Rightarrow> m | None \<Rightarrow> []);
           s1 = (if getPopulate s0 k = JBool True then setPopulate k (JObj []) s0 else s0);
           wasSubcriteriaSortOmitted = sortOmitted (getPopulate s1 k);
           s2 = emit (CallNormalizeCriteria (getPopulate s1 k) otherModelIdentity
                        (ensureTypeSafety E)) s1
       in (case normalizeCriteria (env_orm E) (getPopulate s1 k) otherModelIdentity
                  (ensureTypeSafety E) of
             Inl e \<Rightarrow>
               if e = Some ''E_HIGHLY_IRREGULAR''
               then Threw (UsageError ''E_INVALID_POPULATES'') s2
               else if e = Some ''E_WOULD_RESULT_IN_NOTHING''
               then Threw (ConsistencyViolation SubcriteriaWouldResultInNothing) s2
               else Threw (ConsistencyViolation SubcriteriaUnexpected) s2
           | Inr sc \<Rightarrow> productionCheck E k wasSubcriteriaSortOmitted (setPopulate k sc s2)))"

text \<open>The body of the loop over the keys of \<open>populates\<close>.\<close>

definition populateEntry :: "env \<Rightarrow> string \<Rightarrow> fstate \<Rightarrow> outcome" where
  "populateEntry E populateAttrName s0 =
    (if getPopulate s0 populateAttrName = JBool False \<or> isUndefined (getPopulate s0 populateAttrName)
     then Done (deletePopulate populateAttrName s0)
     else
       let criteria = lookup (qry s0) ''criteria''
       in (case getProp criteria ''omit'' of
             Inl e \<Rightarrow> Threw e s0
           | Inr omit \<Rightarrow>
       if contains omit populateAttrName then Threw (UsageError ''E_INVALID_POPULATES'') s0
       else (case getProp criteria ''select'' of
             Inl e \<Rightarrow> Threw e s0
           | Inr sel \<Rightarrow>
          (case index0 sel of
             Inl e \<Rightarrow> Threw e s0
           | Inr first \<Rightarrow>
          (case (if first \<noteq> JStr ''*'' \<and> \<not> contains sel populateAttrName
                 then (case push sel populateAttrName of
                         Inl e \<Rightarrow> Inl e
                       | Inr sel' \<Rightarrow>
                           (case criteria of
                              JObj cd \<Rightarrow> Inr (setKey ''criteria'' (JObj (AList.update ''select'' sel' cd)) s0)
                            | _ \<Rightarrow> Inr s0))
                 else Inr s0) of
             Inl e \<Rightarrow> Threw e s0
           | Inr s1 \<Rightarrow>
          (case getProp (lookup (qry s1) ''criteria'') ''sort'' of
             Inl e \<Rightarrow> Threw e s1
           | Inr srt \<Rightarrow>
       if mentionedInSort srt populateAttrName then Threw (UsageError ''E_INVALID_POPULATES'') s1
       else
         let s2 = emit (CallGetAttribute populateAttrName (env_using E)) s1
         in (case getAttribute (env_orm E) populateAttrName (env_using E) of
               Inl e \<Rightarrow>
                 if e = Some ''E_ATTR_NOT_REGISTERED''
                 then Threw (UsageError ''E_INVALID_POPULATES'') s2
                 else Threw (ConsistencyViolation PopulateLookupUnexpected) s2
             | Inr populateAttrDef \<Rightarrow>
                 if \<not> truthy_str (attr_model populateAttrDef)
                    \<and> \<not> truthy_str (attr_collection populateAttrDef)
                 then Threw (UsageError ''E_INVALID_POPULATES'') s2
                 else checkRhs E populateAttrName populateAttrDef s2)))))))"

fun populatesLoop :: "env \<Rightarrow> string list \<Rightarrow> fstate \<Rightarrow> outcome" where
  "populatesLoop E [] s = Done s"
| "populatesLoop E (k # ks) s = andThen (populateEntry E k s) (populatesLoop E ks)"

text \<open>\<open>_.keys\<close> of the verified \<open>populates\<close> dictionary.\<close>

fun keysOf :: "jsval \<Rightarrow> string list" where
  "keysOf (JObj d) = own_keys d"
| "keysOf _ = []"

definition forgePopulates :: "env \<Rightarrow> fstate \<Rightarrow> outcome" where
  "forgePopulates E s0 =
    (if ''populates'' \<notin> set (queryKeys E) then Done s0
     else
       let s1 = (if isUndefined (lookup (qry s0) ''populates'')
                 then setKey ''populates'' (JObj []) s0 else s0);
           p = lookup (qry s1) ''populates''
       in if \<not> isObject p \<or> isArray p \<or> isFunction p
          then Threw (UsageError ''E_INVALID_POPULATES'') s1
          else populatesLoop E (keysOf p) s1)"

text \<open>The \<open>numericAttrName\<close> section.\<close>

definition forgeNumericAttrName :: "env \<Rightarrow> fstate \<Rightarrow> outcome" where
  "forgeNumericAttrName E s0 =
    (if ''numericAttrName'' \<notin> set (queryKeys E) then Done s0
     else (case lookup (qry s0) ''numericAttrName'' of
             JStr n \<Rightarrow>
               let s1 = emit (CallGetAttribute n (env_using E)) s0
               in (case getAttribute (env_orm E) n (env_using E) of
                     Inl e \<Rightarrow>
                       if e = Some ''E_ATTR_NOT_REGISTERED''
                       then Threw (UsageError ''E_INVALID_NUMERIC_ATTR_NAME'') s1
                       else Threw (Rethrown e) s1
                   | Inr numericAttrDef \<Rightarrow>
                       if attr_type numericAttrDef \<noteq> Some ''number''
                       then Threw (UsageError ''E_INVALID_NUMERIC_ATTR_NAME'') s1
                       else Done s1)
           | _ \<Rightarrow> Threw (UsageError ''E_INVALID_NUMERIC_ATTR_NAME'') s0))"

text \<open>The \<open>eachRecordFn\<close> / \<open>eachBatchFn\<close> section.\<close>

definition forgeIteratee :: "env \<Rightarrow> fstate \<Rightarrow> outcome" where
  "forgeIteratee E s0 =
    (if ''eachRecordFn'' \<notin> set (queryKeys E) \<and> ''eachBatchFn'' \<notin> set (queryKeys E) then Done s0
     else
       let eachRecordFn = lookup (qry s0) ''eachRecordFn'';
           eachBatchFn = lookup (qry s0) ''eachBatchFn''
       in if \<not> isUndefined eachRecordFn \<and> \<not> isUndefined eachBatchFn
          then Threw (UsageError ''E_INVALID_STREAM_ITERATEE'') s0
          else if \<not> isUndefined eachRecordFn
          then (if \<not> isFunction eachRecordFn
                then Threw (UsageError ''E_INVALID_STREAM_ITERATEE'') s0 else Done s0)
          else if \<not> isUndefined eachBatchFn
          then (if \<not> isFunction eachBatchFn
                then Threw (UsageError ''E_INVALID_STREAM_ITERATEE'') s0 else Done s0)
          else Threw (UsageError ''E_INVALID_STREAM_ITERATEE'') s0)"

text \<open>The \<open>newRecord\<close> and \<open>newRecords\<close> sections.\<close>

definition newRecordCodes :: "exn list" where
  "newRecordCodes = [Some ''E_INVALID'', Some ''E_MISSING_REQUIRED'', Some ''E_HIGHLY_IRREGULAR'']"

definition forgeNewRecord :: "env \<Rightarrow> fstate \<Rightarrow> outcome" where
  "forgeNewRecord E s0 =
    (if ''newRecord'' \<notin> set (queryKeys E) then Done s0
     else
       let r = lookup (qry s0) ''newRecord'';
           s1 = emit (CallNormalizeNewRecord r (env_using E) (ensureTypeSafety E)) s0
       in (case normalizeNewRecord (env_orm E) r (env_using E) (ensureTypeSafety E) of
             Inl e \<Rightarrow>
               if e \<in> set newRecordCodes then Threw (UsageError ''E_INVALID_NEW_RECORD'') s1
               else Threw (Rethrown e) s1
           | Inr r' \<Rightarrow> Done (setKey ''newRecord'' r' s1)))"

text \<open>
  \<open>_.map\<close> over the new records: the normalized records so far are in \<open>acc\<close>; the query is
  assigned only when every element has been normalized.
\<close>

fun mapNewRecords :: "env \<Rightarrow> jsval list \<Rightarrow> jsval list \<Rightarrow> fstate \<Rightarrow> outcome" where
  "mapNewRecords E [] acc s = Done (setKey ''newRecords'' (JArr acc) s)"
| "mapNewRecords E (r # rs) acc s =
    (let s1 = emit (CallNormalizeNewRecord r (env_using E) (ensureTypeSafety E)) s
     in (case normalizeNewRecord (env_orm E) r (env_using E) (ensureTypeSafety E) of
           Inl e \<Rightarrow>
             if e \<in> set newRecordCodes then Threw (UsageError ''E_INVALID_NEW_RECORDS'') s1
             else Threw (Rethrown e) s1
         | Inr r' \<Rightarrow> mapNewRecords E rs (acc @ [r']) s1))"

definition forgeNewRecords :: "env \<Rightarrow> fstate \<Rightarrow> outcome" where
  "forgeNewRecords E s0 =
    (if ''newRecords'' \<notin> set (queryKeys E) then Done s0
     else (case lookup (qry s0) ''newRecords'' of
             JArr rs \<Rightarrow> mapNewRecords E rs [] s0
           | _ \<Rightarrow> Threw (UsageError ''E_INVALID_NEW_RECORDS'') s0))"

text \<open>The \<open>valuesToSet\<close> section.\<close>

definition setValue :: "string \<Rightarrow> jsval \<Rightarrow> fstate \<Rightarrow> fstate" where
  "setValue k v s =
     (case lookup (qry s) ''valuesToSet'' of
        JObj vd \<Rightarrow> setKey ''valuesToSet'' (JObj (AList.update k v vd)) s
      | _ \<Rightarrow> s)"

definition deleteValue :: "string \<Rightarrow> fstate \<Rightarrow> fstate" where
  "deleteValue k s =
     (case lookup (qry s) ''valuesToSet'' of
        JObj vd \<Rightarrow> setKey ''valuesToSet'' (JObj (AList.delete k vd)) s
      | _ \<Rightarrow> s)"

definition getValue :: "fstate \<Rightarrow> string \<Rightarrow> jsval" where
  "getValue s k =
     (case lookup (qry s) ''valuesToSet'' of JObj vd \<Rightarrow> lookup vd k | _ \<Rightarrow> JUndef)"

definition valueEntry :: "env \<Rightarrow> string \<Rightarrow> fstate \<Rightarrow> outcome" where
  "valueEntry E attrNameToSet s0 =
    (let v = getValue s0 attrNameToSet;
         s1 = emit (CallNormalizeValueToSet v attrNameToSet (env_using E) (ensureTypeSafety E)) s0
     in (case normalizeValueToSet (env_orm E) v attrNameToSet (env_using E) (ensureTypeSafety E) of
           Inr v' \<Rightarrow> Done (setValue attrNameToSet v' s1)
         | Inl e \<Rightarrow>
             if e = Some ''E_SHOULD_BE_IGNORED'' then Done (deleteValue attrNameToSet s1)
             else if e = Some ''E_HIGHLY_IRREGULAR''
             then Threw (UsageError ''E_INVALID_VALUES_TO_SET'') s1
             else if e = Some ''E_INVALID''
             then Threw (UsageError ''E_INVALID_VALUES_TO_SET'') s1
             else Threw (Rethrown e) s1))"

fun valuesLoop :: "env \<Rightarrow> string list \<Rightarrow> fstate \<Rightarrow> outcome" where
  "valuesLoop E [] s = Done s"
| "valuesLoop E (k # ks) s = andThen (valueEntry E k s) (valuesLoop E ks)"

definition forgeValuesToSet :: "env \<Rightarrow> fstate \<Rightarrow> outcome" where
  "forgeValuesToSet E s0 =
    (if ''valuesToSet'' \<notin> set (queryKeys E) then Done s0
     else
       let v = lookup (qry s0) ''valuesToSet''
       in if \<not> isObject v \<or> isFunction v \<or> isArray v
          then Threw (UsageError ''E_INVALID_VALUES_TO_SET'') s0
          else valuesLoop E (keysOf v) s0)"

text \<open>
  The \<open>targetRecordIds\<close> section: the attribute lookup and the normalizer are inside one
  \<open>try\<close>, so a failure of either goes through the same \<open>switch\<close>.
\<close>

definition forgeTargetRecordIds :: "env \<Rightarrow> fstate \<Rightarrow> outcome" where
  "forgeTargetRecordIds E s0 =
    (if ''targetRecordIds'' \<notin> set (queryKeys E) then Done s0
     else
       let s1 = emit (CallGetAttribute (primaryKey (WLModel E)) (env_using E)) s0
       in (case getAttribute (env_orm E) (primaryKey (WLModel E)) (env_using E) of
             Inl e \<Rightarrow>
               if e = Some ''E_INVALID_PK_VALUE''
               then Threw (UsageError ''E_INVALID_TARGET_RECORD_IDS'') s1
               else Threw (Rethrown e) s1
           | Inr pkAttrDef \<Rightarrow>
               let ids = lookup (qry s1) ''targetRecordIds'';
                   s2 = emit (CallNormalizePkValues ids (attr_type pkAttrDef)) s1
               in (case normalizePkValues (env_orm E) ids (attr_type pkAttrDef) of
                     Inl e \<Rightarrow>
                       if e = Some ''E_INVALID_PK_VALUE''
                       then Threw (UsageError ''E_INVALID_TARGET_RECORD_IDS'') s2
                       else Threw (Rethrown e) s2
                   | Inr ids' \<Rightarrow> Done (setKey ''targetRecordIds'' ids' s2))))"

text \<open>The \<open>collectionAttrName\<close> section.\<close>

definition forgeCollectionAttrName :: "env \<Rightarrow> fstate \<Rightarrow> outcome" where
  "forgeCollectionAttrName E s0 =
    (if ''collectionAttrName'' \<notin> set (queryKeys E) then Done s0
     else (case lookup (qry s0) ''collectionAttrName'' of
             JStr n \<Rightarrow>
               let s1 = emit (CallGetAttribute n (env_using E)) s0
               in (case getAttribute (env_orm E) n (env_using E) of
                     Inl e \<Rightarrow>
                       if e = Some ''E_ATTR_NOT_REGISTERED''
                       then Threw (UsageError ''E_INVALID_COLLECTION_ATTR_NAME'') s1
                       else Threw (Rethrown e) s1
                   | Inr associationDef \<Rightarrow>
                       if \<not> truthy_str (attr_collection associationDef)
                       then Threw (UsageError ''E_INVALID_COLLECTION_ATTR_NAME'') s1
                       else Done s1)
           | _ \<Rightarrow> Threw (UsageError ''E_INVALID_COLLECTION_ATTR_NAME'') s0))"

text \<open>
  The \<open>associatedIds\<close> section.  Every method with this key also has \<open>collectionAttrName\<close>,
  which the section before has checked to be the name of a collection attribute; the
  branches for anything else are never reached and stop with a \<open>TypeError\<close>.
\<close>

definition forgeAssociatedIds :: "env \<Rightarrow> fstate \<Rightarrow> outcome" where
  "forgeAssociatedIds E s0 =
    (if ''associatedIds'' \<notin> set (queryKeys E) then Done s0
     else (case lookup (qry s0) ''collectionAttrName'' of
             JStr n \<Rightarrow>
               let s1 = emit (CallGetAttribute n (env_using E)) s0
               in (case getAttribute (env_orm E) n (env_using E) of
                     Inl e \<Rightarrow> Threw (Rethrown e) s1
                   | Inr associationDef \<Rightarrow>
               (case attr_collection associationDef of
                  None \<Rightarrow> Threw TypeError s1
                | Some otherModelIdentity \<Rightarrow>
               let s2 = emit (CallGetModel otherModelIdentity) s1
               in (case getModel (env_orm E) otherModelIdentity of
                     Inl e \<Rightarrow> Threw (Rethrown e) s2
                   | Inr AssociatedModel \<Rightarrow>
               let s3 = emit (CallGetAttribute (primaryKey AssociatedModel) otherModelIdentity) s2
               in (case getAttribute (env_orm E) (primaryKey AssociatedModel) otherModelIdentity of
                     Inl e \<Rightarrow> Threw (Rethrown e) s3
                   | Inr associatedPkDef \<Rightarrow>
               let ids = lookup (qry s3) ''associatedIds'';
                   s4 = emit (CallNormalizePkValues ids (attr_type associatedPkDef)) s3
               in (case normalizePkValues (env_orm E) ids (attr_type associatedPkDef) of
                     Inl e \<Rightarrow>
                       if e = Some ''E_INVALID_PK_VALUE''
                       then Threw (UsageError ''E_INVALID_ASSOCIATED_IDS'') s4
                       else Threw (Rethrown e) s4
                   | Inr ids' \<Rightarrow> Done (setKey ''associatedIds'' ids' s4))))))
           | _ \<Rightarrow> Threw TypeError s0))"

text \<open>The per-key sections, in the order of the source.\<close>

definition forgeKeys :: "env \<Rightarrow> fstate \<Rightarrow> outcome" where
  "forgeKeys E s =
     andThen (andThen (andThen (andThen (andThen (andThen (andThen (andThen (andThen
       (forgeCriteria E s)
       (forgePopulates E))
       (forgeNumericAttrName E))
       (forgeIteratee E))
       (forgeNewRecord E))
       (forgeNewRecords E))
       (forgeValuesToSet E))
       (forgeTargetRecordIds E))
       (forgeCollectionAttrName E))
       (forgeAssociatedIds E)"

text \<open>\<open>meta\<close>, if given, is a dictionary.\<close>

definition metaInvalid :: "dict \<Rightarrow> bool" where
  "metaInvalid q =
     (let m = lookup q ''meta''
      in \<not> isUndefined m \<and> (\<not> isObject m \<or> isArray m \<or> isFunction m))"

text \<open>\<open>!query.meta || query.meta.typeSafety !== ''\<close>, once \<open>meta\<close> has passed its check.\<close>

definition typeSafetyOf :: "dict \<Rightarrow> bool" where
  "typeSafetyOf q =
     (case lookup q ''meta'' of
        JObj md \<Rightarrow> lookup md ''typeSafety'' \<noteq> JStr []
      | _ \<Rightarrow> True)"

definition universalKeys :: "string list" where
  "universalKeys = [''meta'', ''using'', ''method'']"

text \<open>
  The forge: the universal checks, the method's query keys, the check for extraneous
  keys, then the per-key sections.
\<close>

definition forgeStageTwoQuery :: "orm \<Rightarrow> dict \<Rightarrow> outcome" where
  "forgeStageTwoQuery R query =
    (let s0 = \<lparr>qry = query, log = []\<rparr>
     in if metaInvalid query then Threw (UsageError ''E_INVALID_META'') s0
     else (case lookup query ''using'' of
        JStr u \<Rightarrow>
          if u = [] then Threw (ConsistencyViolation UsingNotString) s0
          else
            let s1 = emit (CallGetModel u) s0
            in (case getModel R u of
                  Inl e \<Rightarrow>
                    if e = Some ''E_MODEL_NOT_REGISTERED''
                    then Threw (ConsistencyViolation ModelNotRegistered) s1
                    else Threw (Rethrown e) s1
                | Inr M \<Rightarrow>
            (case lookup query ''method'' of
               JStr m \<Rightarrow>
                 if m = [] then Threw (ConsistencyViolation MethodNotString) s1
                 else (case getQueryKeys m of
                         None \<Rightarrow> Threw (ConsistencyViolation UnrecognizedMethod) s1
                       | Some ks \<Rightarrow>
                           let allowedKeys = universalKeys @ ks;
                               extraneousKeys = difference (own_keys query) allowedKeys
                           in if length extraneousKeys > 0
                              then Threw (ConsistencyViolation (ExtraneousKeys extraneousKeys)) s1
                              else forgeKeys
                                     \<lparr>env_orm = R, ensureTypeSafety = typeSafetyOf query,
                                      env_using = u, env_method = m, WLModel = M,
                                      queryKeys = ks\<rparr> s1)
             | _ \<Rightarrow> Threw (ConsistencyViolation MethodNotString) s1))
      | _ \<Rightarrow> Threw (ConsistencyViolation UsingNotString) s0))"

section \<open>An example ontology\<close>

text \<open>
  The ontology of the ad-hoc examples at the end of the source file: a model \<open>user\<close> with
  a string \<open>id\<close>, a singular association \<open>mom\<close> and a plural association \<open>pets\<close>, and a
  model \<open>pet\<close> with a numeric \<open>id\<close>.  The normalizers are simple stand-ins: the criteria
  normalizer completes a dictionary with default clauses and rejects anything else.
\<close>

definition orDefault :: "jsval \<Rightarrow> jsval \<Rightarrow> jsval" where
  "orDefault v d = (if isUndefined v then d else v)"

definition exampleNormalizeCriteria :: "jsval \<Rightarrow> string \<Rightarrow> bool \<Rightarrow> exn + jsval" where
  "exampleNormalizeCriteria c u t =
     (case c of
        JObj d \<Rightarrow>
          Inr (JObj [(''where'', orDefault (lookup d ''where'') (JObj [])),
                     (''limit'', orDefault (lookup d ''limit'') (JNum 9007199254740991)),
                     (''skip'', orDefault (lookup d ''skip'') (JNum 0)),
                     (''sort'', orDefault (lookup d ''sort'') (JArr [])),
                     (''select'', orDefault (lookup d ''select'') (JArr [JStr ''*''])),
                     (''omit'', orDefault (lookup d ''omit'') (JArr []))])
      | _ \<Rightarrow> Inl (Some ''E_HIGHLY_IRREGULAR''))"

definition exampleGetModel :: "string \<Rightarrow> exn + modeldef" where
  "exampleGetModel u =
     (if u = ''user'' \<or> u = ''pet'' then Inr \<lparr>primaryKey = ''id''\<rparr>
      else Inl (Some ''E_MODEL_NOT_REGISTERED''))"

definition exampleGetAttribute :: "string \<Rightarrow> string \<Rightarrow> exn + attrdef" where
  "exampleGetAttribute a u =
     (if u = ''user'' \<and> a = ''id''
      then Inr \<lparr>attr_type = Some ''string'', attr_model = None, attr_collection = None\<rparr>
      else if u = ''user'' \<and> a = ''mom''
      then Inr \<lparr>attr_type = None, attr_model = Some ''user'', attr_collection = None\<rparr>
      else if u = ''user'' \<and> a = ''pets''
      then Inr \<lparr>attr_type = None, attr_model = None, attr_collection = Some ''pet''\<rparr>
      else if u = ''pet'' \<and> a = ''id''
      then Inr \<lparr>attr_type = Some ''number'', attr_model = None, attr_collection = None\<rparr>
      else Inl (Some ''E_ATTR_NOT_REGISTERED''))"

definition exampleOrm :: orm where
  "exampleOrm =
     \<lparr>getModel = exampleGetModel,
      getAttribute = exampleGetAttribute,
      isCapableOfOptimizedPopulate = (\<lambda>a u. True),
      normalizePkValues = (\<lambda>v t. Inr (case v of JArr xs \<Rightarrow> JArr xs | _ \<Rightarrow> JArr [v])),
      normalizeCriteria = exampleNormalizeCriteria,
      normalizeNewRecord = (\<lambda>r u t. Inr r),
      normalizeValueToSet = (\<lambda>v a u t. Inr v),
      production = False\<rparr>"

section \<open>The join integrator\<close>

text \<open>
  The integrator shares arrays and row objects with its caller, so objects live in a heap
  and are passed as \<open>JRef\<close>; a heap cell holds a \<open>JArr\<close> or a \<open>JObj\<close> whose members are
  primitives or references.  An array or dictionary that is not behind a reference is read
  like a literal.
\<close>

type_synonym heap = "nat \<Rightarrow> jsval option"

definition deref :: "heap \<Rightarrow> jsval \<Rightarrow> jsval" where
  "deref H v = (case v of JRef a \<Rightarrow> (case H a of Some c \<Rightarrow> c | None \<Rightarrow> JUndef) | _ \<Rightarrow> v)"

fun nullish :: "jsval \<Rightarrow> bool" where
  "nullish JUndef = True"
| "nullish JNull = True"
| "nullish _ = False"

text \<open>
  What the integrator takes from the JavaScript host and from the version of lodash it is
  run with, neither of which the sources fix; they are parameters.  \<open>hostToString\<close> is the
  string an object, an array, a function or a number beyond the safe integers is coerced to
  when it is used as a property key.  \<open>hostInherited\<close> is the value of a member that is not
  an own member and is found, or not, on the prototype chain.  \<open>hostKeysStrict\<close> tells
  whether \<open>Object.keys\<close> throws on a value that is no object (as before ES2015) or only on
  \<open>undefined\<close> and \<open>null\<close>.  \<open>hostProtoSetter\<close> tells whether lodash's \<open>groupBy\<close> assigns the
  key \<open>__proto__\<close> with a plain assignment, which replaces the prototype of the grouping
  object (as older versions of lodash do), or defines it as an own key like any other.
\<close>

record host =
  hostToString :: "heap \<Rightarrow> jsval \<Rightarrow> string"
  hostInherited :: "heap \<Rightarrow> jsval \<Rightarrow> string \<Rightarrow> jsval"
  hostKeysStrict :: bool
  hostProtoSetter :: bool

text \<open>Decimal digits of a number, for property keys.\<close>

fun decimal :: "nat \<Rightarrow> string" where
  "decimal n = (if n < 10 then [char_of (48 + n)] else decimal (n div 10) @ [char_of (48 + n mod 10)])"

declare decimal.simps [simp del]

text \<open>
  The property key a value is coerced to.  Strings, \<open>undefined\<close>, \<open>null\<close>, booleans and
  the safe integers are covered here; every other value is left to the host.
\<close>

definition toKey :: "'a host_scheme \<Rightarrow> heap \<Rightarrow> jsval \<Rightarrow> string" where
  "toKey P H v =
     (case v of
        JStr s \<Rightarrow> s
      | JUndef \<Rightarrow> ''undefined''
      | JNull \<Rightarrow> ''null''
      | JBool b \<Rightarrow> (if b then ''true'' else ''false'')
      | JNum n \<Rightarrow>
          if - 9007199254740991 \<le> n \<and> n \<le> 9007199254740991
          then (if n < 0 then CHR ''-'' # decimal (nat (- n)) else decimal (nat n))
          else hostToString P H v
      | _ \<Rightarrow> hostToString P H v)"

text \<open>
  \<open>v[k]\<close> for a value that is not \<open>undefined\<close> or \<open>null\<close>.  A dictionary gives its own
  member, an array its element or its length.  A name that is not an own member is looked
  up on the prototype chain, which is the host's; the prototypes of dictionaries and arrays
  have no member named by an array index, so such a name reads as \<open>undefined\<close>.
\<close>

definition memberOf :: "'a host_scheme \<Rightarrow> heap \<Rightarrow> jsval \<Rightarrow> string \<Rightarrow> jsval" where
  "memberOf P H v k =
     (case deref H v of
        JObj d \<Rightarrow>
          (case map_of d k of
             Some x \<Rightarrow> x
           | None \<Rightarrow> if is_array_index k then JUndef else hostInherited P H v k)
      | JArr xs \<Rightarrow>
          if k = ''length'' then JNum (int (length xs))
          else if is_array_index k
          then (if digits_val k < length xs then xs ! digits_val k else JUndef)
          else hostInherited P H v k
      | _ \<Rightarrow> hostInherited P H v k)"

text \<open>\<open>v[k]\<close> in general: reading a member of \<open>undefined\<close> or \<open>null\<close> throws.\<close>

definition readProp :: "'a host_scheme \<Rightarrow> heap \<Rightarrow> jsval \<Rightarrow> string \<Rightarrow> error + jsval" where
  "readProp P H v k = (if nullish (deref H v) then Inl TypeError else Inr (memberOf P H v k))"

text \<open>\<open>Object.keys(v)\<close> throws on \<open>undefined\<close> and \<open>null\<close>, and on a strict host on any value that is no object.\<close>

definition objectKeysThrows :: "'a host_scheme \<Rightarrow> heap \<Rightarrow> jsval \<Rightarrow> bool" where
  "objectKeysThrows P H v =
     (nullish (deref H v) \<or> (hostKeysStrict P \<and> \<not> isObject (deref H v)))"

text \<open>
  Modelled from the spec: the validation library \<open>anchor\<close> is not among the sources.
  \<open>anchor(v).to({type: t})\<close> gives \<open>false\<close> for a value of type \<open>t\<close> and a non-empty list of
  errors otherwise; \<open>object\<close> accepts dictionaries and arrays alike (the same rule checks
  the cache, a join instruction and the cached parent rows), \<open>array\<close> accepts arrays and
  \<open>string\<close> strings.
\<close>

definition anchorRule :: "string \<Rightarrow> jsval \<Rightarrow> bool" where
  "anchorRule t v =
     (if t = ''object'' then isObject v
      else if t = ''array'' then isArray v
      else if t = ''string'' then isString v
      else False)"

definition anchorTo :: "heap \<Rightarrow> jsval \<Rightarrow> string \<Rightarrow> jsval" where
  "anchorTo H v t =
     (if anchorRule t (deref H v) then JBool False
      else JArr [JObj [(''rule'', JStr t)]])"

text \<open>Truthiness of the \<open>invalid\<close> flag: \<open>false\<close>, \<open>true\<close> or anchor's list of errors.\<close>

fun truthy :: "jsval \<Rightarrow> bool" where
  "truthy (JBool b) = b"
| "truthy JUndef = False"
| "truthy JNull = False"
| "truthy (JNum n) = (n \<noteq> 0)"
| "truthy (JStr s) = (s \<noteq> [])"
| "truthy _ = True"

text \<open>\<open>a || b\<close>, the second operand given as a thunk on the unit type.\<close>

definition orElse :: "jsval \<Rightarrow> (unit \<Rightarrow> jsval) \<Rightarrow> jsval" where
  "orElse a b = (if truthy a then a else b ())"

text \<open>
  The usage check at the head of \<open>integrate\<close>.  Each operand is evaluated only when the
  flag is still falsy, so the reads \<open>joinInstructions[0]\<close>, \<open>joinInstructions[0].parent\<close>
  and \<open>cache[...]\<close> happen on values the line before has accepted.
\<close>

definition usageCheck :: "'a host_scheme \<Rightarrow> heap \<Rightarrow> jsval \<Rightarrow> jsval \<Rightarrow> jsval \<Rightarrow> jsval" where
  "usageCheck P H cache joinInstructions cb =
     orElse (anchorTo H cache ''object'') (\<lambda>_.
     orElse (anchorTo H joinInstructions ''array'') (\<lambda>_.
     orElse (anchorTo H (memberOf P H joinInstructions ''0'') ''object'') (\<lambda>_.
     orElse (anchorTo H (memberOf P H (memberOf P H joinInstructions ''0'') ''parent'') ''string'') (\<lambda>_.
     orElse (anchorTo H (memberOf P H cache
                           (toKey P H (memberOf P H (memberOf P H joinInstructions ''0'') ''parent'')))
                        ''object'') (\<lambda>_.
     JBool (\<not> isFunction cb))))))"

text \<open>
  The join primitives are separate modules that are not among the sources; they are
  parameters, next to those of the host.  The joins compute a row set from the heap;
  \<open>populate\<close> mutates the parent rows, so it returns the heap.  Each gives \<open>Inl e\<close> when it
  throws.  The \<open>alias\<close> handed to \<open>populate\<close> is the key \<open>_.each\<close> passes on, a string but for
  one case described below.
\<close>

record joinArgs =
  left :: jsval
  right :: jsval
  leftKey :: jsval
  rightKey :: jsval

record populateArgs =
  parentRows :: jsval
  aliasName :: jsval
  childRows :: jsval
  parentPK :: jsval
  childPK :: jsval
  fkToChild :: jsval

record prims = host +
  leftOuterJoin :: "heap \<Rightarrow> joinArgs \<Rightarrow> exn + jsval"
  innerJoin :: "heap \<Rightarrow> joinArgs \<Rightarrow> exn + jsval"
  populate :: "heap \<Rightarrow> populateArgs \<Rightarrow> exn + heap"

text \<open>The integrator's state: the heap and the calls made to \<open>populate\<close>, in order.\<close>

record istate =
  heap :: heap
  populateCalls :: "populateArgs list"

datatype ioutcome =
    Returned jsval jsval istate
  | Raised error istate

text \<open>
  \<open>_.groupBy(joinInstructions, 'alias')\<close>: the instructions under the key their \<open>alias\<close> is
  coerced to (\<open>undefined\<close> for an instruction that is \<open>undefined\<close> or \<open>null\<close>), each group in
  the order of the list.  The result is the list of the own groups and, where the key
  \<open>__proto__\<close> is assigned through the prototype setter, the last instruction under that
  key: the prototype of the grouping object is then the one-element array of that
  instruction, and the object has no own group of that name.
\<close>

definition aliasKey :: "'a host_scheme \<Rightarrow> heap \<Rightarrow> jsval \<Rightarrow> string" where
  "aliasKey P H instruction =
     toKey P H (if nullish (deref H instruction) then JUndef
                else memberOf P H instruction ''alias'')"

fun addToGroup :: "string \<Rightarrow> jsval \<Rightarrow> (string \<times> jsval list) list \<Rightarrow> (string \<times> jsval list) list" where
  "addToGroup k v [] = [(k, [v])]"
| "addToGroup k v ((k', vs) # gs) =
     (if k = k' then (k', vs @ [v]) # gs else (k', vs) # addToGroup k v gs)"

definition groupStep ::
  "'a host_scheme \<Rightarrow> heap \<Rightarrow> (string \<times> jsval list) list \<times> jsval option \<Rightarrow> jsval
     \<Rightarrow> (string \<times> jsval list) list \<times> jsval option" where
  "groupStep P H acc i =
     (let k = aliasKey P H i
      in if k = ''__proto__'' \<and> hostProtoSetter P then (fst acc, Some i)
         else (addToGroup k i (fst acc), snd acc))"

definition groupByAlias ::
  "'a host_scheme \<Rightarrow> heap \<Rightarrow> jsval list \<Rightarrow> (string \<times> jsval list) list \<times> jsval option" where
  "groupByAlias P H instructions = foldl (groupStep P H) ([], None) instructions"

text \<open>
  What \<open>_.each\<close> visits in the grouping object, in order, as the pairs of the key and the
  value it hands to \<open>eachAssociation\<close>.  It visits the own groups in the order of their keys,
  each key a string and each group a fresh array.  The exception is a grouping object
  whose prototype was replaced and that has no own group \<open>length\<close>: it inherits the length 1
  and lodash takes it for an array, so the one visit has the number 0 as key and, as
  value, the own group \<open>0\<close> or else the element 0 of the prototype.
\<close>

definition visits :: "'a host_scheme \<Rightarrow> heap \<Rightarrow> jsval list \<Rightarrow> (jsval \<times> jsval) list" where
  "visits P H instructions =
     (let gs = fst (groupByAlias P H instructions);
          ks = map fst gs;
          byKey = map (\<lambda>k. (JStr k, JArr (the (map_of gs k))))
                    (sort_key digits_val (filter is_array_index ks)
                     @ filter (\<lambda>k. \<not> is_array_index k) ks)
      in case snd (groupByAlias P H instructions) of
           None \<Rightarrow> byKey
         | Some v \<Rightarrow>
             if map_of gs ''length'' = None
             then [(JNum 0, case map_of gs ''0'' of Some g \<Rightarrow> JArr g | None \<Rightarrow> v)]
             else byKey)"

text \<open>Evaluating an argument that may throw, then the rest.\<close>

definition bindE :: "error + 'a \<Rightarrow> ('a \<Rightarrow> error + 'b) \<Rightarrow> error + 'b" where
  "bindE m f = (case m of Inl e \<Rightarrow> Inl e | Inr x \<Rightarrow> f x)"

definition callPrim :: "exn + 'a \<Rightarrow> error + 'a" where
  "callPrim r = (case r of Inl e \<Rightarrow> Inl (Rethrown e) | Inr x \<Rightarrow> Inr x)"

text \<open>\<open>cache[instruction.field]\<close>.\<close>

definition cacheAt :: "'a host_scheme \<Rightarrow> heap \<Rightarrow> jsval \<Rightarrow> jsval \<Rightarrow> string \<Rightarrow> error + jsval" where
  "cacheAt P H cache instruction field =
     bindE (readProp P H instruction field) (\<lambda>t. readProp P H cache (toKey P H t))"

text \<open>
  The argument of \<open>populate\<close> for a group of two instructions (a junction), its properties
  evaluated in the order of the object literal.
\<close>

definition junctionArgs :: "prims \<Rightarrow> heap \<Rightarrow> jsval \<Rightarrow> jsval \<Rightarrow> jsval \<Rightarrow> jsval \<Rightarrow> jsval \<Rightarrow> error + populateArgs" where
  "junctionArgs P H cache results al i0 i1 =
     bindE (cacheAt P H cache i0 ''parent'') (\<lambda>l0.
     bindE (cacheAt P H cache i0 ''child'') (\<lambda>r0.
     bindE (readProp P H i0 ''parentKey'') (\<lambda>lk0.
     bindE (readProp P H i0 ''childKey'') (\<lambda>rk0.
     bindE (callPrim (leftOuterJoin P H \<lparr>left = l0, right = r0, leftKey = lk0, rightKey = rk0\<rparr>)) (\<lambda>j.
     bindE (cacheAt P H cache i1 ''child'') (\<lambda>r1.
     bindE (readProp P H i1 ''parentKey'') (\<lambda>lk1.
     bindE (readProp P H i1 ''childKey'') (\<lambda>rk1.
     bindE (callPrim (innerJoin P H \<lparr>left = j, right = r1, leftKey = lk1, rightKey = rk1\<rparr>)) (\<lambda>rows.
     bindE (readProp P H i0 ''parentKey'') (\<lambda>ppk.
     bindE (readProp P H i1 ''childKey'') (\<lambda>cpk.
     bindE (readProp P H i1 ''parentKey'') (\<lambda>fk.
     Inr \<lparr>parentRows = results, aliasName = al, childRows = rows,
          parentPK = ppk, childPK = cpk, fkToChild = fk\<rparr>))))))))))))"

text \<open>The argument of \<open>populate\<close> for a group of one instruction.\<close>

definition directArgs :: "prims \<Rightarrow> heap \<Rightarrow> jsval \<Rightarrow> jsval \<Rightarrow> jsval \<Rightarrow> jsval \<Rightarrow> error + populateArgs" where
  "directArgs P H cache results al i0 =
     bindE (cacheAt P H cache i0 ''parent'') (\<lambda>l0.
     bindE (cacheAt P H cache i0 ''child'') (\<lambda>r0.
     bindE (readProp P H i0 ''parentKey'') (\<lambda>lk0.
     bindE (readProp P H i0 ''childKey'') (\<lambda>rk0.
     bindE (callPrim (innerJoin P H \<lparr>left = l0, right = r0, leftKey = lk0, rightKey = rk0\<rparr>)) (\<lambda>rows.
     bindE (readProp P H i0 ''parentKey'') (\<lambda>ppk.
     bindE (readProp P H i0 ''childKey'') (\<lambda>fk.
     Inr \<lparr>parentRows = results, aliasName = al, childRows = rows,
          parentPK = ppk, childPK = JStr ''??????'', fkToChild = fk\<rparr>)))))))"

text \<open>Calling \<open>populate\<close> with an argument, recording the call.\<close>

definition doPopulate :: "prims \<Rightarrow> error + populateArgs \<Rightarrow> istate \<Rightarrow> error + istate" where
  "doPopulate P args s =
     (case args of
        Inl e \<Rightarrow> Inl e
      | Inr a \<Rightarrow>
          (case populate P (heap s) a of
             Inl e \<Rightarrow> Inl (Rethrown e)
           | Inr H' \<Rightarrow> Inr \<lparr>heap = H', populateCalls = populateCalls s @ [a]\<rparr>))"

text \<open>
  \<open>eachAssociation(instructions, alias)\<close>, on a visit \<open>(alias, instructions)\<close>: the branch
  is chosen by \<open>instructions.length\<close>, and \<open>instructions[0]\<close>, \<open>instructions[1]\<close> are the
  instructions it reads.
\<close>

definition eachAssociation :: "prims \<Rightarrow> jsval \<Rightarrow> jsval \<Rightarrow> jsval \<times> jsval \<Rightarrow> istate \<Rightarrow> error + istate" where
  "eachAssociation P cache results g s =
     (let al = fst g; instructions = snd g
      in bindE (readProp P (heap s) instructions ''length'') (\<lambda>len.
         if len = JNum 2
         then doPopulate P (junctionArgs P (heap s) cache results al
                              (memberOf P (heap s) instructions ''0'')
                              (memberOf P (heap s) instructions ''1'')) s
         else if len = JNum 1
         then doPopulate P (directArgs P (heap s) cache results al
                              (memberOf P (heap s) instructions ''0'')) s
         else Inr s))"

fun eachGroup :: "prims \<Rightarrow> jsval \<Rightarrow> jsval \<Rightarrow> (jsval \<times> jsval) list \<Rightarrow> istate \<Rightarrow> error \<times> istate + istate" where
  "eachGroup P cache results [] s = Inr s"
| "eachGroup P cache results (g # gs) s =
     (case eachAssociation P cache results g s of
        Inl e \<Rightarrow> Inl (e, s)
      | Inr s' \<Rightarrow> eachGroup P cache results gs s')"

text \<open>The elements of the instruction array.\<close>

definition elements :: "heap \<Rightarrow> jsval \<Rightarrow> jsval list" where
  "elements H v = (case deref H v of JArr xs \<Rightarrow> xs | _ \<Rightarrow> [])"

text \<open>
  \<open>integrate(cache, joinInstructions, cb)\<close>.  \<open>Returned err results s\<close>: the function
  returned after calling \<open>cb(err, results)\<close>; \<open>Raised e s\<close>: it threw \<open>e\<close> in state \<open>s\<close>.  Calling a \<open>cb\<close>
  that is no function throws, and so does \<open>Object.keys\<close> of the first parent row when that
  is \<open>undefined\<close> or \<open>null\<close> (or, on a strict host, no object).
\<close>

definition integrate :: "prims \<Rightarrow> heap \<Rightarrow> jsval \<Rightarrow> jsval \<Rightarrow> jsval \<Rightarrow> ioutcome" where
  "integrate P H cache joinInstructions cb =
     (let s0 = \<lparr>heap = H, populateCalls = []\<rparr>;
          invalid = usageCheck P H cache joinInstructions cb
      in if truthy invalid
         then (if isFunction cb then Returned invalid JUndef s0 else Raised TypeError s0)
         else
           let parent = memberOf P H (memberOf P H joinInstructions ''0'') ''parent'';
               results = memberOf P H cache (toKey P H parent)
           in if objectKeysThrows P H (memberOf P H results ''0'') then Raised TypeError s0
              else (case eachGroup P cache results
                           (visits P H (elements H joinInstructions)) s0 of
                      Inl (e, s) \<Rightarrow> Raised e s
                    | Inr s \<Rightarrow> Returned JNull results s))"

text \<open>
  Notions the theorems on the integrator are stated with.  The heap after a call of
  \<open>populate\<close>, a call that throws leaving it as it was; whether a visit is of a group of
  exactly one or two instructions, read in a given heap; the argument \<open>eachAssociation\<close>
  computes for such a visit; and whether a visit is of a fresh array of some other length.
\<close>

definition afterCall :: "prims \<Rightarrow> heap \<Rightarrow> populateArgs \<Rightarrow> heap" where
  "afterCall P h a = (case populate P h a of Inl e \<Rightarrow> h | Inr h' \<Rightarrow> h')"

definition attaches :: "'a host_scheme \<Rightarrow> heap \<Rightarrow> jsval \<times> jsval \<Rightarrow> bool" where
  "attaches P h g =
     (\<not> nullish (deref h (snd g))
      \<and> (memberOf P h (snd g) ''length'' = JNum 1 \<or> memberOf P h (snd g) ''length'' = JNum 2))"

definition argsFor :: "prims \<Rightarrow> heap \<Rightarrow> jsval \<Rightarrow> jsval \<Rightarrow> jsval \<times> jsval \<Rightarrow> error + populateArgs" where
  "argsFor P h cache results g =
     (if memberOf P h (snd g) ''length'' = JNum 2
      then junctionArgs P h cache results (fst g)
             (memberOf P h (snd g) ''0'') (memberOf P h (snd g) ''1'')
      else directArgs P h cache results (fst g) (memberOf P h (snd g) ''0''))"

definition skipped :: "jsval \<times> jsval \<Rightarrow> bool" where
  "skipped g = (case snd g of JArr xs \<Rightarrow> length xs \<noteq> 1 \<and> length xs \<noteq> 2 | _ \<Rightarrow> False)"

text \<open>
  The calls \<open>calls\<close> are, in order, one call of \<open>populate\<close> for each of the visits \<open>gs\<close>, from
  the heap \<open>h\<close> on: each call has the alias of its visit, the parent rows \<open>results\<close> and the
  argument \<open>eachAssociation\<close> computes in the heap the calls before it have left, and each
  call returns.
\<close>

fun attachedInOrder ::
  "prims \<Rightarrow> jsval \<Rightarrow> jsval \<Rightarrow> heap \<Rightarrow> (jsval \<times> jsval) list \<Rightarrow> populateArgs list \<Rightarrow> bool" where
  "attachedInOrder P cache results h [] [] = True"
| "attachedInOrder P cache results h (g # gs) (a # calls) =
     (aliasName a = fst g \<and> parentRows a = results
      \<and> argsFor P h cache results g = Inr a
      \<and> (case populate P h a of
           Inl e \<Rightarrow> False
         | Inr h' \<Rightarrow> attachedInOrder P cache results h' gs calls))"
| "attachedInOrder P cache results h [] (a # calls) = False"
| "attachedInOrder P cache results h (g # gs) [] = False"

section \<open>The join primitives, from their specification\<close>

text \<open>
  Modelled from the spec: the modules \<open>leftOuterJoin\<close>, \<open>innerJoin\<close> and \<open>populate\<close> are not
  among the sources.  The specification gives them as operations on row sequences; what it
  leaves open is fixed here as follows.  A table is an array of row dictionaries.  Two rows
  match on a pair of keys when the left row has a value under its key (neither
  \<open>undefined\<close> nor \<open>null\<close>) and the right row has the same value under its key.  A left
  row paired with a right row is the dictionary of the left row's attributes followed by
  the right row's, so an attribute of the left row hides a like-named one of the right row.
\<close>

definition rowsOf :: "heap \<Rightarrow> jsval \<Rightarrow> dict list" where
  "rowsOf H t = map (\<lambda>r. case deref H r of JObj d \<Rightarrow> d | _ \<Rightarrow> []) (elements H t)"

definition matches :: "dict \<Rightarrow> string \<Rightarrow> dict \<Rightarrow> string \<Rightarrow> bool" where
  "matches l lk r rk = (\<not> nullish (lookup l lk) \<and> lookup l lk = lookup r rk)"

definition paired :: "dict \<Rightarrow> dict \<Rightarrow> jsval" where
  "paired l r = JObj (l @ r)"

text \<open>
  Modelled from the spec: Inner Join keeps only the left rows that have a match in the
  right table, each paired with each of its matches, in the order of the left rows.
\<close>

definition specInnerJoin :: "host \<Rightarrow> heap \<Rightarrow> joinArgs \<Rightarrow> exn + jsval" where
  "specInnerJoin E H a =
     Inr (JArr (concat (map
       (\<lambda>l. map (paired l)
              (filter (\<lambda>r. matches l (toKey E H (leftKey a)) r (toKey E H (rightKey a)))
                 (rowsOf H (right a))))
       (rowsOf H (left a)))))"

text \<open>
  Modelled from the spec: Left Outer Join gives, for every left row in order, the row
  paired with each matching right row, or the left row alone when nothing matches.
\<close>

definition specLeftOuterJoin :: "host \<Rightarrow> heap \<Rightarrow> joinArgs \<Rightarrow> exn + jsval" where
  "specLeftOuterJoin E H a =
     Inr (JArr (concat (map
       (\<lambda>l. let ms = filter (\<lambda>r. matches l (toKey E H (leftKey a)) r (toKey E H (rightKey a)))
                        (rowsOf H (right a))
            in if ms = [] then [JObj l] else map (paired l) ms)
       (rowsOf H (left a)))))"

text \<open>
  Modelled from the spec: Populate attaches to each parent row, under the alias, the array
  of the child rows that belong to it, mutating the parent row in place.  A joined child
  row belongs to the parent row whose \<open>parentPK\<close> value it carries.
\<close>

definition belongsTo :: "dict \<Rightarrow> string \<Rightarrow> jsval \<Rightarrow> bool" where
  "belongsTo p pk c = (case c of JObj cd \<Rightarrow> matches p pk cd pk | _ \<Rightarrow> False)"

definition attach :: "string \<Rightarrow> string \<Rightarrow> jsval list \<Rightarrow> heap \<Rightarrow> jsval \<Rightarrow> heap" where
  "attach al pk children H r =
     (case r of
        JRef a \<Rightarrow>
          (case H a of
             Some (JObj d) \<Rightarrow>
               H(a \<mapsto> JObj (AList.update al (JArr (filter (belongsTo d pk) children)) d))
           | _ \<Rightarrow> H)
      | _ \<Rightarrow> H)"

definition specPopulate :: "host \<Rightarrow> heap \<Rightarrow> populateArgs \<Rightarrow> exn + heap" where
  "specPopulate E H a =
     Inr (foldl (attach (toKey E H (aliasName a)) (toKey E H (parentPK a))
                   (elements H (childRows a))) H
            (elements H (parentRows a)))"

text \<open>The primitives of the specification on a host.\<close>

definition specPrims :: "host \<Rightarrow> prims" where
  "specPrims E =
     \<lparr>hostToString = hostToString E, hostInherited = hostInherited E,
      hostKeysStrict = hostKeysStrict E, hostProtoSetter = hostProtoSetter E,
      leftOuterJoin = specLeftOuterJoin E, innerJoin = specInnerJoin E,
      populate = specPopulate E\<rparr>"

text \<open>
  A host for the examples: an object used as a key prints as \<open>[object Object]\<close>, the
  prototypes have no member the examples read, \<open>Object.keys\<close> is strict and \<open>__proto__\<close> is
  assigned through the setter.
\<close>

definition exampleHost :: host where
  "exampleHost =
     \<lparr>hostToString = (\<lambda>H v. ''[object Object]''), hostInherited = (\<lambda>H v k. JUndef),
      hostKeysStrict = True, hostProtoSetter = True\<rparr>"

text \<open>
  An example cache: users 1 and 2, pets 10 and 11, and a junction that links user 1 to
  pet 10 and a user 3, who is not among the parent rows, to pet 11.  The user rows are at
  addresses 1 and 2 of the heap, their array at address 0.
\<close>

definition exampleHeap :: heap where
  "exampleHeap =
     [0 \<mapsto> JArr [JRef 1, JRef 2],
      1 \<mapsto> JObj [(''id'', JNum 1)],
      2 \<mapsto> JObj [(''id'', JNum 2)]]"

definition exampleCache :: jsval where
  "exampleCache =
     JObj [(''user'', JRef 0),
           (''pet_owners'', JArr [JObj [(''user_id'', JNum 1), (''pet_id'', JNum 10)],
                                  JObj [(''user_id'', JNum 3), (''pet_id'', JNum 11)]]),
           (''pet'', JArr [JObj [(''pid'', JNum 10)], JObj [(''pid'', JNum 11)]])]"

definition exampleJunction :: "jsval list" where
  "exampleJunction =
     [JObj [(''parent'', JStr ''user''), (''parentKey'', JStr ''id''),
            (''child'', JStr ''pet_owners''), (''childKey'', JStr ''user_id''),
            (''alias'', JStr ''pets'')],
      JObj [(''parent'', JStr ''pet_owners''), (''parentKey'', JStr ''pet_id''),
            (''child'', JStr ''pet''), (''childKey'', JStr ''pid''),
            (''alias'', JStr ''pets'')]]"

text \<open>
  A second cache, in which the one user row has an attribute of its own named like the
  junction's key to the child: user 1 carries \<open>pet_id = 11\<close>, and the only junction row
  links a user 3 to pet 11.  The user row is at address 1, its array at address 0.
\<close>

definition collidingHeap :: heap where
  "collidingHeap =
     [0 \<mapsto> JArr [JRef 1],
      1 \<mapsto> JObj [(''id'', JNum 1), (''pet_id'', JNum 11)]]"

definition collidingCache :: jsval where
  "collidingCache =
     JObj [(''user'', JRef 0),
           (''pet_owners'', JArr [JObj [(''user_id'', JNum 3), (''pet_id'', JNum 11)]]),
           (''pet'', JArr [JObj [(''pid'', JNum 11)]])]"

text \<open>
  What the junction claim says of a row \<open>x\<close> attached to a parent: it is a parent row, a
  junction row that matches the parent row and a child row that matches the junction row.
\<close>

definition throughJunction ::
  "dict list \<Rightarrow> dict list \<Rightarrow> dict list \<Rightarrow> string \<Rightarrow> string \<Rightarrow> string \<Rightarrow> string \<Rightarrow> jsval \<Rightarrow> bool" where
  "throughJunction parents junction children pk0 ck0 pk1 ck1 x =
     list_ex (\<lambda>l. list_ex (\<lambda>jr. list_ex (\<lambda>c.
         x = JObj ((l @ jr) @ c) \<and> matches l pk0 jr ck0 \<and> matches jr pk1 c ck1)
       children) junction) parents"

text \<open>
  A parent row \<open>r\<close> of the heap holds, under the alias, an array of rows that all satisfy
  \<open>Q\<close>; nothing is said of an \<open>r\<close> that is not a reference to a dictionary.
\<close>

definition populatedWith :: "(jsval \<Rightarrow> bool) \<Rightarrow> string \<Rightarrow> heap \<Rightarrow> jsval \<Rightarrow> bool" where
  "populatedWith Q al H r =
     (case r of
        JRef a \<Rightarrow>
          (case H a of
             Some (JObj d) \<Rightarrow> (case lookup d al of JArr xs \<Rightarrow> list_all Q xs | _ \<Rightarrow> False)
           | _ \<Rightarrow> True)
      | _ \<Rightarrow> True)"

section \<open>Properties of the stage-two query forge\<close>

subsection \<open>Shared facts\<close>

lemma getQueryKeys_nil: "getQueryKeys [] = None"
  by (simp add: getQueryKeys_def)

lemma getQueryKeys_nonempty: "getQueryKeys m = Some ks \<Longrightarrow> m \<noteq> []"
  using getQueryKeys_nil by auto

lemma forge_reaches_keys:
  assumes "\<not> metaInvalid q" "lookup q ''using'' = JStr u" "u \<noteq> []" "getModel R u = Inr M"
    "lookup q ''method'' = JStr m" "getQueryKeys m = Some ks"
    "difference (own_keys q) (universalKeys @ ks) = []"
  shows "forgeStageTwoQuery R q =
           forgeKeys \<lparr>env_orm = R, ensureTypeSafety = typeSafetyOf q, env_using = u,
                      env_method = m, WLModel = M, queryKeys = ks\<rparr>
                     \<lparr>qry = q, log = [CallGetModel u]\<rparr>"
proof -
  have m: "m \<noteq> []" using assms(6) by (rule getQueryKeys_nonempty)
  show ?thesis
    using assms m by (simp add: forgeStageTwoQuery_def emit_def Let_def)
qed

lemma forgeKeys_criteria_threw:
  "forgeCriteria E s = Threw e s' \<Longrightarrow> forgeKeys E s = Threw e s'"
  by (simp add: forgeKeys_def)

lemma forgeCriteria_incompat:
  assumes "''criteria'' \<in> set (queryKeys E)"
    "((specifies (lookup (qry s) ''criteria'') ''select'' \<or> specifies (lookup (qry s) ''criteria'') ''omit'')
        \<and> env_method E \<notin> set PROJECTION_COMPATIBLE_METHODS)
     \<or> (specifies (lookup (qry s) ''criteria'') ''limit'' \<and> env_method E \<notin> set LIMIT_COMPATIBLE_METHODS)"
  shows "forgeCriteria E s = Threw (UsageError ''E_INVALID_CRITERIA'') s"
proof -
  have c: "\<not> isUndefined (lookup (qry s) ''criteria'')"
    using assms(2) by (auto simp: specifies_def split: jsval.splits)
  show ?thesis
    using assms c unfolding forgeCriteria_def Let_def by auto
qed

lemma set_own_keys: "set (own_keys d) = set (map fst d)"
  by (auto simp: own_keys_def Let_def)

subsection \<open>Claim C1\<close>

text \<open>
  C1, as amended.  Let a query pass the universal checks (\<open>meta\<close> absent or a dictionary,
  \<open>using\<close> a registered model, \<open>method\<close> recognized, no extraneous key) and let its method
  accept \<open>criteria\<close>.  If the criteria specifies \<open>select\<close> or \<open>omit\<close> and the method is not
  \<open>find\<close>, \<open>findOne\<close> or \<open>stream\<close>, or specifies \<open>limit\<close> and the method is not \<open>find\<close>,
  \<open>stream\<close>, \<open>sum\<close>, \<open>avg\<close>, \<open>update\<close> or \<open>destroy\<close>, the forge throws the usage error
  \<open>E_INVALID_CRITERIA\<close>; at the throw the query is untouched and the only collaborator
  called is \<open>getModel\<close>, so \<open>normalizeCriteria\<close> has not been invoked.
\<close>

theorem criteria_clause_rejected_before_normalizing:
  assumes "\<not> metaInvalid q" "lookup q ''using'' = JStr u" "u \<noteq> []" "getModel R u = Inr M"
    "lookup q ''method'' = JStr m" "getQueryKeys m = Some ks" "''criteria'' \<in> set ks"
    "difference (own_keys q) (universalKeys @ ks) = []"
    "((specifies (lookup q ''criteria'') ''select'' \<or> specifies (lookup q ''criteria'') ''omit'')
        \<and> m \<notin> set [''find'', ''findOne'', ''stream''])
     \<or> (specifies (lookup q ''criteria'') ''limit''
        \<and> m \<notin> set [''find'', ''stream'', ''sum'', ''avg'', ''update'', ''destroy''])"
  shows "forgeStageTwoQuery R q =
           Threw (UsageError ''E_INVALID_CRITERIA'') \<lparr>qry = q, log = [CallGetModel u]\<rparr>"
proof -
  let ?E = "\<lparr>env_orm = R, ensureTypeSafety = typeSafetyOf q, env_using = u,
              env_method = m, WLModel = M, queryKeys = ks\<rparr>"
  let ?s = "\<lparr>qry = q, log = [CallGetModel u]\<rparr>"
  have "forgeCriteria ?E ?s = Threw (UsageError ''E_INVALID_CRITERIA'') ?s"
    using assms(7,9)
    by (intro forgeCriteria_incompat)
       (simp_all add: PROJECTION_COMPATIBLE_METHODS_def LIMIT_COMPATIBLE_METHODS_def)
  then have "forgeKeys ?E ?s = Threw (UsageError ''E_INVALID_CRITERIA'') ?s"
    by (rule forgeKeys_criteria_threw)
  then show ?thesis
    using forge_reaches_keys [OF assms(1-6) assms(8)] by simp
qed

text \<open>The theorem at \<open>count\<close> with a \<open>select\<close> clause.\<close>

theorem criteria_clause_rejected_witness:
  "forgeStageTwoQuery exampleOrm
     [(''using'', JStr ''user''), (''method'', JStr ''count''),
      (''criteria'', JObj [(''select'', JArr [JStr ''id''])])]
   = Threw (UsageError ''E_INVALID_CRITERIA'')
       \<lparr>qry = [(''using'', JStr ''user''), (''method'', JStr ''count''),
               (''criteria'', JObj [(''select'', JArr [JStr ''id''])])],
        log = [CallGetModel ''user'']\<rparr>"
proof -
  let ?q = "[(''using'', JStr ''user''), (''method'', JStr ''count''),
      (''criteria'', JObj [(''select'', JArr [JStr ''id''])])]"
  have h1: "\<not> metaInvalid ?q" by (simp add: metaInvalid_def lookup_def)
  have h2: "lookup ?q ''using'' = JStr ''user''" by (simp add: lookup_def)
  have h3: "''user'' \<noteq> []" by simp
  have h4: "getModel exampleOrm ''user'' = Inr \<lparr>primaryKey = ''id''\<rparr>"
    by (simp add: exampleOrm_def exampleGetModel_def)
  have h5: "lookup ?q ''method'' = JStr ''count''" by (simp add: lookup_def)
  have h6: "getQueryKeys ''count'' = Some [''criteria'']" by (simp add: getQueryKeys_def)
  have h7: "''criteria'' \<in> set [''criteria'']" by simp
  have h8: "difference (own_keys ?q) (universalKeys @ [''criteria'']) = []" by code_simp
  have h9: "((specifies (lookup ?q ''criteria'') ''select'' \<or> specifies (lookup ?q ''criteria'') ''omit'')
        \<and> ''count'' \<notin> set [''find'', ''findOne'', ''stream''])
     \<or> (specifies (lookup ?q ''criteria'') ''limit''
        \<and> ''count'' \<notin> set [''find'', ''stream'', ''sum'', ''avg'', ''update'', ''destroy''])"
    by (simp add: specifies_def lookup_def)
  show ?thesis
    by (rule criteria_clause_rejected_before_normalizing [OF h1 h2 h3 h4 h5 h6 h7 h8 h9])
qed

text \<open>
  The claim as stated fails for the methods that do not accept \<open>criteria\<close> at all: for
  \<open>create\<close>, a criteria with a \<open>select\<close> clause is an extraneous key, and the forge throws
  the untyped consistency violation instead of \<open>E_INVALID_CRITERIA\<close>.
\<close>

theorem criteria_select_on_create_counterexample:
  "specifies (JObj [(''select'', JArr [JStr ''id''])]) ''select''
   \<and> ''create'' \<notin> set [''find'', ''findOne'', ''stream'']
   \<and> forgeStageTwoQuery exampleOrm
       [(''using'', JStr ''user''), (''method'', JStr ''create''),
        (''criteria'', JObj [(''select'', JArr [JStr ''id''])])]
     = Threw (ConsistencyViolation (ExtraneousKeys [''criteria'']))
         \<lparr>qry = [(''using'', JStr ''user''), (''method'', JStr ''create''),
                 (''criteria'', JObj [(''select'', JArr [JStr ''id''])])],
          log = [CallGetModel ''user'']\<rparr>"
  by code_simp


subsection \<open>Claim C2\<close>

text \<open>
  C2, as amended.  Let a query name a supported method and have a top-level key outside
  \<open>meta\<close>, \<open>using\<close>, \<open>method\<close> and the keys of its method.  Then the forge throws, and at
  the throw the query is untouched and no normalizer has been invoked.  When the query
  passes the checks of \<open>meta\<close> and \<open>using\<close>, which come first, the error is the plain
  consistency violation that lists the extraneous keys and carries no usage code, and the
  only collaborator called is \<open>getModel\<close>.
\<close>

theorem extraneous_key_rejected_before_normalizing:
  assumes "lookup q ''method'' = JStr m" "getQueryKeys m = Some ks"
    "k \<in> set (map fst q)" "k \<notin> set ([''meta'', ''using'', ''method''] @ ks)"
  shows "(\<exists>e s. forgeStageTwoQuery R q = Threw e s \<and> qry s = q
            \<and> \<not> list_ex is_normalizer_call (log s))
       \<and> (\<not> metaInvalid q \<and> lookup q ''using'' = JStr u \<and> u \<noteq> [] \<and> getModel R u = Inr M
          \<longrightarrow> forgeStageTwoQuery R q =
                Threw (ConsistencyViolation (ExtraneousKeys
                         (difference (own_keys q) ([''meta'', ''using'', ''method''] @ ks))))
                      \<lparr>qry = q, log = [CallGetModel u]\<rparr>
              \<and> error_code (ConsistencyViolation (ExtraneousKeys
                         (difference (own_keys q) ([''meta'', ''using'', ''method''] @ ks)))) = None)"
proof -
  have m: "m \<noteq> []" using assms(2) by (rule getQueryKeys_nonempty)
  have "k \<in> set (difference (own_keys q) (universalKeys @ ks))"
    using assms(3,4) by (simp add: difference_def set_own_keys universalKeys_def)
  then have ex: "length (difference (own_keys q) (universalKeys @ ks)) > 0"
    by (cases "difference (own_keys q) (universalKeys @ ks)") auto
  have a: "\<exists>e s. forgeStageTwoQuery R q = Threw e s \<and> qry s = q
            \<and> \<not> list_ex is_normalizer_call (log s)"
    using assms(1,2) m ex
    by (auto simp: forgeStageTwoQuery_def emit_def Let_def split: jsval.splits sum.splits)
  have b: "forgeStageTwoQuery R q =
          Threw (ConsistencyViolation (ExtraneousKeys (difference (own_keys q) (universalKeys @ ks))))
            \<lparr>qry = q, log = [CallGetModel u]\<rparr>"
    if "\<not> metaInvalid q \<and> lookup q ''using'' = JStr u \<and> u \<noteq> [] \<and> getModel R u = Inr M"
    using that assms(1,2) m ex by (simp add: forgeStageTwoQuery_def emit_def Let_def)
  show ?thesis using a b by (simp add: universalKeys_def)
qed

text \<open>The theorem at a \<open>find\<close> query with a stray top-level \<open>limit\<close>.\<close>

theorem extraneous_key_rejected_witness:
  "(\<exists>e s. forgeStageTwoQuery exampleOrm
            [(''using'', JStr ''user''), (''method'', JStr ''find''), (''limit'', JNum 3)] = Threw e s
        \<and> qry s = [(''using'', JStr ''user''), (''method'', JStr ''find''), (''limit'', JNum 3)]
        \<and> \<not> list_ex is_normalizer_call (log s))
   \<and> forgeStageTwoQuery exampleOrm
        [(''using'', JStr ''user''), (''method'', JStr ''find''), (''limit'', JNum 3)]
     = Threw (ConsistencyViolation (ExtraneousKeys [''limit'']))
         \<lparr>qry = [(''using'', JStr ''user''), (''method'', JStr ''find''), (''limit'', JNum 3)],
          log = [CallGetModel ''user'']\<rparr>
   \<and> error_code (ConsistencyViolation (ExtraneousKeys [''limit''])) = None"
proof -
  let ?q = "[(''using'', JStr ''user''), (''method'', JStr ''find''), (''limit'', JNum 3)]"
  have h1: "\<not> metaInvalid ?q" by (simp add: metaInvalid_def lookup_def)
  have h2: "lookup ?q ''using'' = JStr ''user''" by (simp add: lookup_def)
  have h3: "''user'' \<noteq> []" by simp
  have h4: "getModel exampleOrm ''user'' = Inr \<lparr>primaryKey = ''id''\<rparr>"
    by (simp add: exampleOrm_def exampleGetModel_def)
  have h5: "lookup ?q ''method'' = JStr ''find''" by (simp add: lookup_def)
  have h6: "getQueryKeys ''find'' = Some [''criteria'', ''populates'']" by (simp add: getQueryKeys_def)
  have h7: "''limit'' \<in> set (map fst ?q)" by simp
  have h8: "''limit'' \<notin> set ([''meta'', ''using'', ''method''] @ [''criteria'', ''populates''])" by simp
  have d: "difference (own_keys ?q) ([''meta'', ''using'', ''method''] @ [''criteria'', ''populates'']) = [''limit'']"
    by code_simp
  show ?thesis
    using extraneous_key_rejected_before_normalizing [OF h5 h6 h7 h8, where R = exampleOrm
        and u = "''user''" and M = "\<lparr>primaryKey = ''id''\<rparr>"] h1 h2 h3 h4
    unfolding d by simp
qed

text \<open>
  The claim as stated promises the consistency violation for every such query.  A
  \<open>find\<close> query with the stray key \<open>foo\<close> and a \<open>meta\<close> that is a number throws the typed
  usage error \<open>E_INVALID_META\<close> instead: the check of \<open>meta\<close> comes first.
\<close>

theorem extraneous_key_with_invalid_meta_counterexample:
  "forgeStageTwoQuery exampleOrm
     [(''meta'', JNum 5), (''using'', JStr ''user''), (''method'', JStr ''find''), (''foo'', JNum 1)]
   = Threw (UsageError ''E_INVALID_META'')
       \<lparr>qry = [(''meta'', JNum 5), (''using'', JStr ''user''), (''method'', JStr ''find''),
               (''foo'', JNum 1)],
        log = []\<rparr>
   \<and> error_code (UsageError ''E_INVALID_META'') = Some ''E_INVALID_META''
   \<and> getQueryKeys ''find'' = Some [''criteria'', ''populates'']
   \<and> ''foo'' \<notin> set ([''meta'', ''using'', ''method''] @ [''criteria'', ''populates''])"
  by (simp add: forgeStageTwoQuery_def metaInvalid_def lookup_def Let_def getQueryKeys_def)

subsection \<open>Claim C3\<close>

text \<open>The methods \<open>_getQueryKeys\<close> has a case for.\<close>

lemma recognized_iff:
  "getQueryKeys m \<noteq> None \<longleftrightarrow>
     m \<in> set [''find'', ''findOne'', ''stream'', ''count'', ''sum'', ''avg'', ''create'',
               ''createEach'', ''findOrCreate'', ''update'', ''destroy'', ''addToCollection'',
               ''removeFromCollection'', ''replaceCollection'']"
  unfolding getQueryKeys_def by simp

text \<open>
  C3, as amended.  The methods the forge recognizes are exactly the fourteen operations
  \<open>find\<close>, \<open>findOne\<close>, \<open>stream\<close>, \<open>count\<close>, \<open>sum\<close>, \<open>avg\<close>, \<open>create\<close>, \<open>createEach\<close>,
  \<open>findOrCreate\<close>, \<open>update\<close>, \<open>destroy\<close>, \<open>addToCollection\<close>, \<open>removeFromCollection\<close> and
  \<open>replaceCollection\<close>, each with the keys \<open>getQueryKeys\<close> gives it; for a query that passes
  the checks of \<open>meta\<close> and \<open>using\<close> and names any other method, the forge throws a plain
  consistency violation, which carries no usage code.
\<close>

theorem recognized_methods_are_fourteen:
  assumes "\<not> metaInvalid q" "lookup q ''using'' = JStr u" "u \<noteq> []" "getModel R u = Inr M"
    "lookup q ''method'' = JStr m"
    "m \<notin> set [''find'', ''findOne'', ''stream'', ''count'', ''sum'', ''avg'', ''create'',
               ''createEach'', ''findOrCreate'', ''update'', ''destroy'', ''addToCollection'',
               ''removeFromCollection'', ''replaceCollection'']"
  shows "{x. getQueryKeys x \<noteq> None} =
           set [''find'', ''findOne'', ''stream'', ''count'', ''sum'', ''avg'', ''create'',
               ''createEach'', ''findOrCreate'', ''update'', ''destroy'', ''addToCollection'',
               ''removeFromCollection'', ''replaceCollection'']
         \<and> forgeStageTwoQuery R q =
             Threw (ConsistencyViolation (if m = [] then MethodNotString else UnrecognizedMethod))
               \<lparr>qry = q, log = [CallGetModel u]\<rparr>
         \<and> error_code (ConsistencyViolation (if m = [] then MethodNotString else UnrecognizedMethod)) = None"
proof -
  have none: "getQueryKeys m = None"
    using assms(6) recognized_iff [of m] by blast
  have run: "forgeStageTwoQuery R q =
             Threw (ConsistencyViolation (if m = [] then MethodNotString else UnrecognizedMethod))
               \<lparr>qry = q, log = [CallGetModel u]\<rparr>"
    using assms(1-5) none by (simp add: forgeStageTwoQuery_def emit_def Let_def)
  have "{x. getQueryKeys x \<noteq> None} =
           set [''find'', ''findOne'', ''stream'', ''count'', ''sum'', ''avg'', ''create'',
               ''createEach'', ''findOrCreate'', ''update'', ''destroy'', ''addToCollection'',
               ''removeFromCollection'', ''replaceCollection'']"
    using recognized_iff by blast
  then show ?thesis using run by simp
qed

text \<open>The theorem at the unknown method \<open>fetch\<close>.\<close>

theorem recognized_methods_witness:
  "forgeStageTwoQuery exampleOrm [(''using'', JStr ''user''), (''method'', JStr ''fetch'')] =
     Threw (ConsistencyViolation UnrecognizedMethod)
       \<lparr>qry = [(''using'', JStr ''user''), (''method'', JStr ''fetch'')],
        log = [CallGetModel ''user'']\<rparr>"
proof -
  let ?q = "[(''using'', JStr ''user''), (''method'', JStr ''fetch'')]"
  have h1: "\<not> metaInvalid ?q" by (simp add: metaInvalid_def lookup_def)
  have h2: "lookup ?q ''using'' = JStr ''user''" by (simp add: lookup_def)
  have h3: "''user'' \<noteq> []" by simp
  have h4: "getModel exampleOrm ''user'' = Inr \<lparr>primaryKey = ''id''\<rparr>"
    by (simp add: exampleOrm_def exampleGetModel_def)
  have h5: "lookup ?q ''method'' = JStr ''fetch''" by (simp add: lookup_def)
  have h6: "''fetch'' \<notin> set [''find'', ''findOne'', ''stream'', ''count'', ''sum'', ''avg'', ''create'',
               ''createEach'', ''findOrCreate'', ''update'', ''destroy'', ''addToCollection'',
               ''removeFromCollection'', ''replaceCollection'']" by simp
  show ?thesis
    using recognized_methods_are_fourteen [OF h1 h2 h3 h4 h5 h6] by simp
qed

text \<open>The claim counts twelve recognized methods; the source has fourteen.\<close>

theorem recognized_methods_not_twelve_counterexample:
  "card {x. getQueryKeys x \<noteq> None} = 14 \<and> card {x. getQueryKeys x \<noteq> None} \<noteq> 12"
proof -
  have "{x. getQueryKeys x \<noteq> None} =
           set [''find'', ''findOne'', ''stream'', ''count'', ''sum'', ''avg'', ''create'',
               ''createEach'', ''findOrCreate'', ''update'', ''destroy'', ''addToCollection'',
               ''removeFromCollection'', ''replaceCollection'']"
    using recognized_iff by blast
  moreover have "distinct [''find'', ''findOne'', ''stream'', ''count'', ''sum'', ''avg'', ''create'',
               ''createEach'', ''findOrCreate'', ''update'', ''destroy'', ''addToCollection'',
               ''removeFromCollection'', ''replaceCollection'']" by simp
  ultimately show ?thesis by (simp only: distinct_card) simp
qed

subsection \<open>The populates section: shared facts\<close>

text \<open>Reads of the query after a write.\<close>

lemma lookup_update: "lookup (AList.update k v d) k' = (if k' = k then v else lookup d k')"
  by (simp add: lookup_def update_conv')

lemma lookup_delete: "lookup (AList.delete k d) k' = (if k' = k then JUndef else lookup d k')"
  by (simp add: lookup_def delete_conv')

lemma qry_setKey: "qry (setKey k v s) = AList.update k v (qry s)"
  by (simp add: setKey_def)

lemma qry_emit: "qry (emit ev s) = qry s"
  by (simp add: emit_def)

lemma push_Inr: "push sel k = Inr sel' \<Longrightarrow> \<exists>xs. sel = JArr xs \<and> sel' = JArr (xs @ [JStr k])"
  by (cases sel) auto

text \<open>
  An entry that passes either removes its key, or reaches the check of its right-hand side
  with at most the \<open>select\<close> clause extended.
\<close>

lemma populateEntry_Done_cases:
  assumes "populateEntry E k s = Done s'"
  shows "s' = deletePopulate k s
     \<or> (\<exists>s1 d. (s1 = s \<or> (\<exists>cd xs. lookup (qry s) ''criteria'' = JObj cd
                      \<and> lookup cd ''select'' = JArr xs
                      \<and> s1 = setKey ''criteria'' (JObj (AList.update ''select'' (JArr (xs @ [JStr k])) cd)) s))
            \<and> checkRhs E k d (emit (CallGetAttribute k (env_using E)) s1) = Done s')"
  using assms unfolding populateEntry_def Let_def
  by (auto split: if_splits sum.splits jsval.splits dest!: push_Inr)


text \<open>What an entry leaves alone: the other entries and the clauses other than \<open>select\<close>.\<close>

lemma log_free_lookups:
  "lookup (qry (emit ev s)) x = lookup (qry s) x"
  by (simp add: emit_def)

lemma criteria_setPopulate: "lookup (qry (setPopulate k v s)) ''criteria'' = lookup (qry s) ''criteria''"
  by (simp add: setPopulate_def setKey_def lookup_update split: jsval.splits)

lemma criteria_deletePopulate: "lookup (qry (deletePopulate k s)) ''criteria'' = lookup (qry s) ''criteria''"
  by (simp add: deletePopulate_def setKey_def lookup_update split: jsval.splits)

lemma getPopulate_emit: "getPopulate (emit ev s) k = getPopulate s k"
  by (simp add: getPopulate_def emit_def)

lemma getPopulate_setPopulate_other:
  "k' \<noteq> k \<Longrightarrow> getPopulate (setPopulate k v s) k' = getPopulate s k'"
  by (simp add: getPopulate_def setPopulate_def setKey_def lookup_update split: jsval.splits)

lemma getPopulate_setPopulate_same:
  "lookup (qry s) ''populates'' = JObj pd \<Longrightarrow> getPopulate (setPopulate k v s) k = v"
  by (simp add: getPopulate_def setPopulate_def setKey_def lookup_update)

lemma getPopulate_deletePopulate_other:
  "k' \<noteq> k \<Longrightarrow> getPopulate (deletePopulate k s) k' = getPopulate s k'"
  by (simp add: getPopulate_def deletePopulate_def setKey_def lookup_update lookup_delete split: jsval.splits)

lemma getPopulate_setCriteria:
  "getPopulate (setKey ''criteria'' c s) k = getPopulate s k"
  by (simp add: getPopulate_def setKey_def lookup_update)

lemma productionCheck_Done:
  "productionCheck E k w s = Done s' \<Longrightarrow> qry s' = qry s"
  unfolding productionCheck_def Let_def
  by (auto simp: emit_def split: if_splits sum.splits)

lemma checkRhs_Done_criteria:
  assumes "checkRhs E k d s = Done s'"
  shows "lookup (qry s') ''criteria'' = lookup (qry s) ''criteria''"
proof (cases "truthy_str (attr_model d)")
  case True
  then show ?thesis using assms unfolding checkRhs_def
    by (auto simp: criteria_setPopulate split: if_splits)
next
  case False
  then obtain sc s2 w where
    pc: "productionCheck E k w (setPopulate k sc s2) = Done s'"
    and s2: "lookup (qry s2) ''criteria'' = lookup (qry s) ''criteria''"
    using assms unfolding checkRhs_def Let_def
    by (auto simp: criteria_setPopulate log_free_lookups split: if_splits sum.splits)
  from productionCheck_Done [OF pc] s2 show ?thesis by (simp add: criteria_setPopulate)
qed

lemma checkRhs_Done_other:
  assumes "checkRhs E k d s = Done s'" "k' \<noteq> k"
  shows "getPopulate s' k' = getPopulate s k'"
proof (cases "truthy_str (attr_model d)")
  case True
  then show ?thesis using assms unfolding checkRhs_def
    by (auto simp: getPopulate_setPopulate_other split: if_splits)
next
  case False
  then obtain sc s2 w where
    pc: "productionCheck E k w (setPopulate k sc s2) = Done s'"
    and s2: "getPopulate s2 k' = getPopulate s k'"
    using assms unfolding checkRhs_def Let_def
    by (auto simp: getPopulate_setPopulate_other getPopulate_emit split: if_splits sum.splits)
  have "getPopulate s' k' = getPopulate (setPopulate k sc s2) k'"
    using productionCheck_Done [OF pc] by (simp add: getPopulate_def)
  then show ?thesis using s2 assms(2) by (simp add: getPopulate_setPopulate_other)
qed

lemma populateEntry_Done_other:
  assumes "populateEntry E k s = Done s'" "k' \<noteq> k"
  shows "getPopulate s' k' = getPopulate s k'"
  using populateEntry_Done_cases [OF assms(1)] assms(2)
  by (auto simp: getPopulate_deletePopulate_other getPopulate_emit getPopulate_setCriteria
           dest!: checkRhs_Done_other [where k' = k'])

lemma populateEntry_Done_clause:
  assumes "populateEntry E k s = Done s'" "name \<noteq> ''select''"
  shows "getProp (lookup (qry s') ''criteria'') name = getProp (lookup (qry s) ''criteria'') name"
  using populateEntry_Done_cases [OF assms(1)] assms(2)
  by (auto simp: criteria_deletePopulate log_free_lookups qry_setKey lookup_update
           dest!: checkRhs_Done_criteria)

lemma populateEntry_Done_select:
  assumes "populateEntry E k s = Done s'" "getProp (lookup (qry s) ''criteria'') ''select'' = Inr (JArr sel)"
  shows "\<exists>sel'. getProp (lookup (qry s') ''criteria'') ''select'' = Inr (JArr sel')"
  using populateEntry_Done_cases [OF assms(1)] assms(2)
  by (auto simp: criteria_deletePopulate log_free_lookups qry_setKey lookup_update
           dest!: checkRhs_Done_criteria)


text \<open>The entry of an omitted attribute, and of an attribute the primary sort mentions.\<close>

lemma populateEntry_omitted:
  assumes "getPopulate s k \<noteq> JBool False" "getPopulate s k \<noteq> JUndef"
    "getProp (lookup (qry s) ''criteria'') ''omit'' = Inr om" "contains om k"
  shows "populateEntry E k s = Threw (UsageError ''E_INVALID_POPULATES'') s"
proof -
  have "\<not> isUndefined (getPopulate s k)" using assms(2) by (cases "getPopulate s k") auto
  then show ?thesis using assms unfolding populateEntry_def Let_def by simp
qed

lemma populateEntry_sorted:
  assumes "getPopulate s k \<noteq> JBool False" "getPopulate s k \<noteq> JUndef"
    "getProp (lookup (qry s) ''criteria'') ''select'' = Inr (JArr sel)"
    "getProp (lookup (qry s) ''criteria'') ''sort'' = Inr srt" "mentionedInSort srt k"
  shows "\<exists>s'. populateEntry E k s = Threw (UsageError ''E_INVALID_POPULATES'') s'"
proof -
  have u: "\<not> isUndefined (getPopulate s k)" using assms(2) by (cases "getPopulate s k") auto
  obtain cd where cd: "lookup (qry s) ''criteria'' = JObj cd"
    using assms(3) by (cases "lookup (qry s) ''criteria''") auto
  obtain om where om: "getProp (lookup (qry s) ''criteria'') ''omit'' = Inr om"
    using cd by simp
  have i0: "\<exists>f. index0 (JArr sel) = Inr f" by (cases sel) auto
  show ?thesis
    using assms u cd i0 unfolding populateEntry_def Let_def
    by (auto simp: qry_setKey lookup_update)
qed

lemma populatesLoop_append:
  "populatesLoop E (xs @ ys) s = andThen (populatesLoop E xs s) (populatesLoop E ys)"
proof (induction xs arbitrary: s)
  case Nil
  then show ?case by simp
next
  case (Cons x xs)
  then show ?case by (cases "populateEntry E x s") simp_all
qed

lemma populatesLoop_Done_other:
  "populatesLoop E ks s = Done s' \<Longrightarrow> k \<notin> set ks \<Longrightarrow> getPopulate s' k = getPopulate s k"
proof (induction ks arbitrary: s)
  case Nil
  then show ?case by simp
next
  case (Cons x xs)
  then obtain s1 where s1: "populateEntry E x s = Done s1" "populatesLoop E xs s1 = Done s'"
    by (cases "populateEntry E x s") auto
  have "getPopulate s1 k = getPopulate s k"
    using populateEntry_Done_other [OF s1(1), of k] Cons.prems(2) by auto
  moreover have "getPopulate s' k = getPopulate s1 k"
    using Cons.IH [OF s1(2)] Cons.prems(2) by simp
  ultimately show ?case by simp
qed

lemma populatesLoop_Done_clause:
  "populatesLoop E ks s = Done s' \<Longrightarrow> name \<noteq> ''select'' \<Longrightarrow>
     getProp (lookup (qry s') ''criteria'') name = getProp (lookup (qry s) ''criteria'') name"
proof (induction ks arbitrary: s)
  case Nil
  then show ?case by simp
next
  case (Cons x xs)
  then obtain s1 where s1: "populateEntry E x s = Done s1" "populatesLoop E xs s1 = Done s'"
    by (cases "populateEntry E x s") auto
  show ?case
    using populateEntry_Done_clause [OF s1(1) Cons.prems(2)] Cons.IH [OF s1(2) Cons.prems(2)]
    by simp
qed

lemma populatesLoop_Done_select:
  "populatesLoop E ks s = Done s' \<Longrightarrow>
   getProp (lookup (qry s) ''criteria'') ''select'' = Inr (JArr sel) \<Longrightarrow>
     \<exists>sel'. getProp (lookup (qry s') ''criteria'') ''select'' = Inr (JArr sel')"
proof (induction ks arbitrary: s sel)
  case Nil
  then show ?case by simp
next
  case (Cons x xs)
  then obtain s1 where s1: "populateEntry E x s = Done s1" "populatesLoop E xs s1 = Done s'"
    by (cases "populateEntry E x s") auto
  from populateEntry_Done_select [OF s1(1) Cons.prems(2)]
  obtain sel1 where "getProp (lookup (qry s1) ''criteria'') ''select'' = Inr (JArr sel1)" by blast
  from Cons.IH [OF s1(2) this] show ?case .
qed

text \<open>The keys before the first occurrence of a key, that key, and the rest.\<close>

lemma split_at_key:
  "k \<in> set ks \<Longrightarrow> ks = takeWhile (\<lambda>x. x \<noteq> k) ks @ k # tl (dropWhile (\<lambda>x. x \<noteq> k) ks)"
proof -
  assume "k \<in> set ks"
  then have "dropWhile (\<lambda>x. x \<noteq> k) ks \<noteq> []" by (simp add: dropWhile_eq_Nil_conv) 
  moreover have "hd (dropWhile (\<lambda>x. x \<noteq> k) ks) = k"
    using calculation hd_dropWhile [of "\<lambda>x. x \<noteq> k" ks] by auto
  ultimately have "dropWhile (\<lambda>x. x \<noteq> k) ks = k # tl (dropWhile (\<lambda>x. x \<noteq> k) ks)"
    by (cases "dropWhile (\<lambda>x. x \<noteq> k) ks") auto
  then show ?thesis using takeWhile_dropWhile_id [of "\<lambda>x. x \<noteq> k" ks] by simp
qed

lemma not_in_prefix: "k \<notin> set (takeWhile (\<lambda>x. x \<noteq> k) ks)"
  by (auto dest: set_takeWhileD)

text \<open>
  The loop throws at a key when the entries before it pass, or earlier with the error of an
  earlier entry.
\<close>

lemma populatesLoop_throws_at:
  assumes "k \<in> set ks"
    "\<And>s2. populatesLoop E (takeWhile (\<lambda>x. x \<noteq> k) ks) s = Done s2 \<Longrightarrow>
           \<exists>s3. populateEntry E k s2 = Threw err s3"
  shows "(\<exists>e s'. populatesLoop E ks s = Threw e s')
       \<and> (\<forall>s2. populatesLoop E (takeWhile (\<lambda>x. x \<noteq> k) ks) s = Done s2 \<longrightarrow>
               (\<exists>s3. populatesLoop E ks s = Threw err s3 \<and> populateEntry E k s2 = Threw err s3))"
proof -
  let ?pre = "takeWhile (\<lambda>x. x \<noteq> k) ks"
  let ?rest = "tl (dropWhile (\<lambda>x. x \<noteq> k) ks)"
  have ks: "populatesLoop E ks s = andThen (populatesLoop E ?pre s) (populatesLoop E (k # ?rest))"
    using split_at_key [OF assms(1)] populatesLoop_append [of E ?pre "k # ?rest" s] by simp
  show ?thesis
  proof (cases "populatesLoop E ?pre s")
    case (Threw e s')
    then show ?thesis using ks by simp
  next
    case (Done s2)
    from assms(2) [OF Done] obtain s3 where "populateEntry E k s2 = Threw err s3" by blast
    then show ?thesis using ks Done by simp
  qed
qed

lemma forgePopulates_loop:
  assumes "''populates'' \<in> set (queryKeys E)" "lookup (qry s) ''populates'' = JObj pd"
  shows "forgePopulates E s = populatesLoop E (own_keys pd) s"
  using assms by (simp add: forgePopulates_def Let_def)

lemma forgeKeys_populates_threw:
  "forgeCriteria E s0 = Done s1 \<Longrightarrow> forgePopulates E s1 = Threw e s \<Longrightarrow> forgeKeys E s0 = Threw e s"
  by (simp add: forgeKeys_def)

lemma getPopulate_dict:
  "lookup (qry s) ''populates'' = JObj pd \<Longrightarrow> getPopulate s k = lookup pd k"
  by (simp add: getPopulate_def)


lemma live_key_in_keys: "lookup pd k \<noteq> JUndef \<Longrightarrow> k \<in> set (own_keys pd)"
  by (auto simp: lookup_def set_own_keys split: option.splits dest: map_of_SomeD intro: rev_image_eqI)

text \<open>The entry of a singular association that passes the omit and sort checks.\<close>

lemma populateEntry_singular:
  assumes "getPopulate s k \<noteq> JBool False" "getPopulate s k \<noteq> JUndef"
    "getProp (lookup (qry s) ''criteria'') ''omit'' = Inr om" "\<not> contains om k"
    "getProp (lookup (qry s) ''criteria'') ''select'' = Inr (JArr sel)"
    "getProp (lookup (qry s) ''criteria'') ''sort'' = Inr srt" "\<not> mentionedInSort srt k"
    "getAttribute (env_orm E) k (env_using E) = Inr d" "truthy_str (attr_model d)"
  shows "\<exists>s1. populateEntry E k s = checkRhs E k d s1 \<and> getPopulate s1 k = getPopulate s k"
proof -
  have u: "\<not> isUndefined (getPopulate s k)" using assms(2) by (cases "getPopulate s k") auto
  obtain cd where cd: "lookup (qry s) ''criteria'' = JObj cd"
    using assms(5) by (cases "lookup (qry s) ''criteria''") auto
  have i0: "\<exists>f. index0 (JArr sel) = Inr f" by (cases sel) auto
  show ?thesis
    using assms u cd i0 unfolding populateEntry_def Let_def
    apply (auto simp: qry_setKey lookup_update)
    apply ((rule exI, rule conjI, rule refl, simp add: getPopulate_emit getPopulate_setCriteria)+)
    done
qed

lemma checkRhs_singular:
  assumes "truthy_str (attr_model d)" "getPopulate s k = v" "v \<noteq> JUndef"
  shows "(v = JObj [] \<or> v = JBool True \<longrightarrow>
            (\<exists>s'. checkRhs E k d s = Done s' \<and> getPopulate s' k = JBool True))
       \<and> (v \<noteq> JObj [] \<and> v \<noteq> JBool True \<longrightarrow>
            checkRhs E k d s = Threw (UsageError ''E_INVALID_POPULATES'') s)"
proof -
  obtain pd where "lookup (qry s) ''populates'' = JObj pd"
    using assms(2,3) by (cases "lookup (qry s) ''populates''") (auto simp: getPopulate_def)
  then show ?thesis
    using assms unfolding checkRhs_def by (auto simp: getPopulate_setPopulate_same)
qed


text \<open>The sections after \<open>populates\<close> do not touch it.\<close>

lemma andThen_Done: "andThen m f = Done s' \<Longrightarrow> \<exists>s. m = Done s \<and> f s = Done s'"
  by (cases m) auto

lemma populates_setKey_other:
  "key \<noteq> ''populates'' \<Longrightarrow> lookup (qry (setKey key v s)) ''populates'' = lookup (qry s) ''populates''"
  by (simp add: setKey_def lookup_update)

lemma numeric_keeps_populates:
  "forgeNumericAttrName E s = Done s' \<Longrightarrow> lookup (qry s') ''populates'' = lookup (qry s) ''populates''"
  unfolding forgeNumericAttrName_def Let_def
  by (auto simp: log_free_lookups split: if_splits jsval.splits sum.splits)

lemma iteratee_keeps_populates:
  "forgeIteratee E s = Done s' \<Longrightarrow> lookup (qry s') ''populates'' = lookup (qry s) ''populates''"
  unfolding forgeIteratee_def Let_def
  by (auto split: if_splits)

lemma newRecord_keeps_populates:
  "forgeNewRecord E s = Done s' \<Longrightarrow> lookup (qry s') ''populates'' = lookup (qry s) ''populates''"
  unfolding forgeNewRecord_def Let_def
  by (auto simp: log_free_lookups populates_setKey_other split: if_splits sum.splits)

lemma mapNewRecords_keeps_populates:
  "mapNewRecords E rs acc s = Done s' \<Longrightarrow> lookup (qry s') ''populates'' = lookup (qry s) ''populates''"
proof (induction rs arbitrary: acc s)
  case Nil
  then show ?case by (auto simp: populates_setKey_other)
next
  case (Cons r rs)
  then show ?case
    by (auto simp: Let_def log_free_lookups split: sum.splits if_splits)
qed

lemma newRecords_keeps_populates:
  "forgeNewRecords E s = Done s' \<Longrightarrow> lookup (qry s') ''populates'' = lookup (qry s) ''populates''"
  unfolding forgeNewRecords_def
  by (auto dest: mapNewRecords_keeps_populates split: if_splits jsval.splits)

lemma valueEntry_keeps_populates:
  "valueEntry E k s = Done s' \<Longrightarrow> lookup (qry s') ''populates'' = lookup (qry s) ''populates''"
  unfolding valueEntry_def Let_def setValue_def deleteValue_def
  by (auto simp: log_free_lookups populates_setKey_other split: if_splits sum.splits jsval.splits)

lemma valuesLoop_keeps_populates:
  "valuesLoop E ks s = Done s' \<Longrightarrow> lookup (qry s') ''populates'' = lookup (qry s) ''populates''"
proof (induction ks arbitrary: s)
  case Nil
  then show ?case by simp
next
  case (Cons k ks)
  then show ?case
    by (auto dest!: andThen_Done valueEntry_keeps_populates)
qed

lemma valuesToSet_keeps_populates:
  "forgeValuesToSet E s = Done s' \<Longrightarrow> lookup (qry s') ''populates'' = lookup (qry s) ''populates''"
  unfolding forgeValuesToSet_def Let_def
  by (auto dest: valuesLoop_keeps_populates split: if_splits)

lemma targetRecordIds_keeps_populates:
  "forgeTargetRecordIds E s = Done s' \<Longrightarrow> lookup (qry s') ''populates'' = lookup (qry s) ''populates''"
  unfolding forgeTargetRecordIds_def Let_def
  by (auto simp: log_free_lookups populates_setKey_other split: if_splits sum.splits)

lemma collectionAttrName_keeps_populates:
  "forgeCollectionAttrName E s = Done s' \<Longrightarrow> lookup (qry s') ''populates'' = lookup (qry s) ''populates''"
  unfolding forgeCollectionAttrName_def Let_def
  by (auto simp: log_free_lookups split: if_splits jsval.splits sum.splits)

lemma associatedIds_keeps_populates:
  "forgeAssociatedIds E s = Done s' \<Longrightarrow> lookup (qry s') ''populates'' = lookup (qry s) ''populates''"
  unfolding forgeAssociatedIds_def Let_def
  by (auto simp: log_free_lookups populates_setKey_other split: if_splits jsval.splits sum.splits option.splits)

lemma forgeKeys_Done_populates:
  assumes "forgeKeys E s0 = Done sf" "forgeCriteria E s0 = Done s1"
  shows "\<exists>sp. forgePopulates E s1 = Done sp
            \<and> lookup (qry sf) ''populates'' = lookup (qry sp) ''populates''"
proof -
  from assms(1) obtain s9 where 9: "forgeAssociatedIds E s9 = Done sf"
    and r9: "andThen (andThen (andThen (andThen (andThen (andThen (andThen (andThen
       (forgeCriteria E s0)
       (forgePopulates E))
       (forgeNumericAttrName E))
       (forgeIteratee E))
       (forgeNewRecord E))
       (forgeNewRecords E))
       (forgeValuesToSet E))
       (forgeTargetRecordIds E))
       (forgeCollectionAttrName E) = Done s9"
    unfolding forgeKeys_def by (blast dest: andThen_Done)
  from r9 obtain s8 where 8: "forgeCollectionAttrName E s8 = Done s9"
    and r8: "andThen (andThen (andThen (andThen (andThen (andThen (andThen
       (forgeCriteria E s0)
       (forgePopulates E))
       (forgeNumericAttrName E))
       (forgeIteratee E))
       (forgeNewRecord E))
       (forgeNewRecords E))
       (forgeValuesToSet E))
       (forgeTargetRecordIds E) = Done s8"
    by (blast dest: andThen_Done)
  from r8 obtain s7 where 7: "forgeTargetRecordIds E s7 = Done s8"
    and r7: "andThen (andThen (andThen (andThen (andThen (andThen
       (forgeCriteria E s0)
       (forgePopulates E))
       (forgeNumericAttrName E))
       (forgeIteratee E))
       (forgeNewRecord E))
       (forgeNewRecords E))
       (forgeValuesToSet E) = Done s7"
    by (blast dest: andThen_Done)
  from r7 obtain s6 where 6: "forgeValuesToSet E s6 = Done s7"
    and r6: "andThen (andThen (andThen (andThen (andThen
       (forgeCriteria E s0)
       (forgePopulates E))
       (forgeNumericAttrName E))
       (forgeIteratee E))
       (forgeNewRecord E))
       (forgeNewRecords E) = Done s6"
    by (blast dest: andThen_Done)
  from r6 obtain s5 where 5: "forgeNewRecords E s5 = Done s6"
    and r5: "andThen (andThen (andThen (andThen
       (forgeCriteria E s0)
       (forgePopulates E))
       (forgeNumericAttrName E))
       (forgeIteratee E))
       (forgeNewRecord E) = Done s5"
    by (blast dest: andThen_Done)
  from r5 obtain s4 where 4: "forgeNewRecord E s4 = Done s5"
    and r4: "andThen (andThen (andThen
       (forgeCriteria E s0)
       (forgePopulates E))
       (forgeNumericAttrName E))
       (forgeIteratee E) = Done s4"
    by (blast dest: andThen_Done)
  from r4 obtain s3 where 3: "forgeIteratee E s3 = Done s4"
    and r3: "andThen (andThen
       (forgeCriteria E s0)
       (forgePopulates E))
       (forgeNumericAttrName E) = Done s3"
    by (blast dest: andThen_Done)
  from r3 obtain sp where 2: "forgeNumericAttrName E sp = Done s3"
    and r2: "andThen (forgeCriteria E s0) (forgePopulates E) = Done sp"
    by (blast dest: andThen_Done)
  from r2 assms(2) have p: "forgePopulates E s1 = Done sp" by simp
  have "lookup (qry sf) ''populates'' = lookup (qry sp) ''populates''"
    using associatedIds_keeps_populates [OF 9] collectionAttrName_keeps_populates [OF 8]
      targetRecordIds_keeps_populates [OF 7] valuesToSet_keeps_populates [OF 6]
      newRecords_keeps_populates [OF 5] newRecord_keeps_populates [OF 4]
      iteratee_keeps_populates [OF 3] numeric_keeps_populates [OF 2]
    by simp
  with p show ?thesis by blast
qed


subsection \<open>Claim C4\<close>

lemma distinct_own_keys: "distinct (map fst d) \<Longrightarrow> distinct (own_keys d)"
  by (auto simp: own_keys_def Let_def)

text \<open>
  C4, as amended.  In the same setting, with the keys of \<open>populates\<close> distinct and the
  normalized \<open>select\<close>, \<open>omit\<close> and \<open>sort\<close> clauses arrays, let \<open>k\<close> name a singular
  association that is neither omitted nor a key of the primary sort, let its right-hand
  side be neither \<open>false\<close> nor \<open>undefined\<close>, and let the entries visited before \<open>k\<close> pass
  (state \<open>s2\<close>).  If the right-hand side is \<open>{}\<close> or \<open>true\<close>, the entry passes and stores
  \<open>true\<close>, and \<open>true\<close> is what \<open>query.populates\<close> holds for \<open>k\<close> whenever the forge
  completes; for any other right-hand side the forge throws \<open>E_INVALID_POPULATES\<close>.
\<close>

theorem singular_populate_rhs:
  assumes "forgeStageTwoQuery R q = forgeKeys E s0"
    and "forgeCriteria E s0 = Done s1"
    and "''populates'' \<in> set (queryKeys E)"
    and "lookup (qry s1) ''populates'' = JObj pd"
    and "distinct (map fst pd)"
    and "getAttribute (env_orm E) k (env_using E) = Inr d"
    and "truthy_str (attr_model d)"
    and "lookup pd k \<noteq> JBool False"
    and "lookup pd k \<noteq> JUndef"
    and "getProp (lookup (qry s1) ''criteria'') ''select'' = Inr (JArr sel)"
    and "getProp (lookup (qry s1) ''criteria'') ''omit'' = Inr (JArr om)"
    and "JStr k \<notin> set om"
    and "getProp (lookup (qry s1) ''criteria'') ''sort'' = Inr (JArr ds)"
    and "\<not> list_ex (\<lambda>c. first_key c = JStr k) ds"
    and "populatesLoop E (takeWhile (\<lambda>x. x \<noteq> k) (own_keys pd)) s1 = Done s2"
  shows "(lookup pd k = JObj [] \<or> lookup pd k = JBool True \<longrightarrow>
            (\<exists>s3. populateEntry E k s2 = Done s3 \<and> getPopulate s3 k = JBool True)
            \<and> (\<forall>sf. forgeStageTwoQuery R q = Done sf \<longrightarrow> getPopulate sf k = JBool True))
       \<and> (lookup pd k \<noteq> JObj [] \<and> lookup pd k \<noteq> JBool True \<longrightarrow>
            (\<exists>s3. forgeStageTwoQuery R q = Threw (UsageError ''E_INVALID_POPULATES'') s3))"
proof -
  let ?pre = "takeWhile (\<lambda>x. x \<noteq> k) (own_keys pd)"
  let ?rest = "tl (dropWhile (\<lambda>x. x \<noteq> k) (own_keys pd))"
  note pre = assms(15)
  have k: "k \<in> set (own_keys pd)" using assms(9) by (rule live_key_in_keys)
  have ks: "own_keys pd = ?pre @ k # ?rest" using split_at_key [OF k] .
  have "distinct (?pre @ k # ?rest)" using distinct_own_keys [OF assms(5)] ks by simp
  then have rest: "k \<notin> set ?rest" by simp
  have loop: "populatesLoop E (own_keys pd) s1 = andThen (populateEntry E k s2) (populatesLoop E ?rest)"
    using populatesLoop_append [of E ?pre "k # ?rest" s1] ks pre by simp
  have run: "forgePopulates E s1 = andThen (populateEntry E k s2) (populatesLoop E ?rest)"
    using forgePopulates_loop [OF assms(3,4)] loop by simp
  have v: "getPopulate s2 k = lookup pd k"
    using populatesLoop_Done_other [OF pre not_in_prefix] getPopulate_dict [OF assms(4)] by simp
  have o: "getProp (lookup (qry s2) ''criteria'') ''omit'' = Inr (JArr om)"
    using populatesLoop_Done_clause [OF pre, of "''omit''"] assms(11) by simp
  have st: "getProp (lookup (qry s2) ''criteria'') ''sort'' = Inr (JArr ds)"
    using populatesLoop_Done_clause [OF pre, of "''sort''"] assms(13) by simp
  obtain sel' where sl: "getProp (lookup (qry s2) ''criteria'') ''select'' = Inr (JArr sel')"
    using populatesLoop_Done_select [OF pre assms(10)] by blast
  have nc: "\<not> contains (JArr om) k" using assms(12) by simp
  have nm: "\<not> mentionedInSort (JArr ds) k" using assms(14) by simp
  obtain sA where sA: "populateEntry E k s2 = checkRhs E k d sA" "getPopulate sA k = lookup pd k"
    using populateEntry_singular [OF _ _ o nc sl st nm assms(6,7)] v assms(8,9) by auto
  note rhs = checkRhs_singular [OF assms(7) sA(2) assms(9), of E]
  show ?thesis
  proof (intro conjI impI)
    assume good: "lookup pd k = JObj [] \<or> lookup pd k = JBool True"
    with rhs sA(1) obtain s3 where s3: "populateEntry E k s2 = Done s3" "getPopulate s3 k = JBool True"
      by auto
    then show "\<exists>s3. populateEntry E k s2 = Done s3 \<and> getPopulate s3 k = JBool True" by blast
    show "\<forall>sf. forgeStageTwoQuery R q = Done sf \<longrightarrow> getPopulate sf k = JBool True"
    proof (intro allI impI)
      fix sf assume "forgeStageTwoQuery R q = Done sf"
      then have "forgeKeys E s0 = Done sf" using assms(1) by simp
      from forgeKeys_Done_populates [OF this assms(2)]
      obtain sp where sp: "forgePopulates E s1 = Done sp"
        "lookup (qry sf) ''populates'' = lookup (qry sp) ''populates''" by blast
      have "populatesLoop E ?rest s3 = Done sp" using sp(1) run s3(1) by simp
      then have "getPopulate sp k = JBool True"
        using populatesLoop_Done_other [OF _ rest] s3(2) by simp
      then show "getPopulate sf k = JBool True" using sp(2) by (simp add: getPopulate_def)
    qed
  next
    assume "lookup pd k \<noteq> JObj [] \<and> lookup pd k \<noteq> JBool True"
    with rhs sA(1) have "populateEntry E k s2 = Threw (UsageError ''E_INVALID_POPULATES'') sA"
      by simp
    then have "forgePopulates E s1 = Threw (UsageError ''E_INVALID_POPULATES'') sA"
      using run by simp
    then have "forgeStageTwoQuery R q = Threw (UsageError ''E_INVALID_POPULATES'') sA"
      using assms(1) forgeKeys_populates_threw [OF assms(2)] by simp
    then show "\<exists>s3. forgeStageTwoQuery R q = Threw (UsageError ''E_INVALID_POPULATES'') s3" by blast
  qed
qed


text \<open>The theorem at \<open>find\<close> with \<open>populates: {mom: {}}\<close>.\<close>

theorem singular_populate_rhs_witness:
  "\<exists>sf. forgeStageTwoQuery exampleOrm
          [(''using'', JStr ''user''), (''method'', JStr ''find''), (''criteria'', JObj []), (''populates'', JObj [(''mom'', JObj [])])]
        = Done sf \<and> getPopulate sf ''mom'' = JBool True"
proof -
  let ?q = "[(''using'', JStr ''user''), (''method'', JStr ''find''), (''criteria'', JObj []), (''populates'', JObj [(''mom'', JObj [])])]"
  let ?E = "\<lparr>env_orm = exampleOrm, ensureTypeSafety = True, env_using = ''user'', env_method = ''find'', WLModel = \<lparr>primaryKey = ''id''\<rparr>, queryKeys = [''criteria'', ''populates'']\<rparr>"
  let ?s0 = "\<lparr>qry = ?q, log = [CallGetModel ''user'']\<rparr>"
  let ?s1 = "\<lparr>qry = [(''using'', JStr ''user''), (''method'', JStr ''find''), (''criteria'', JObj [(''where'', JObj []), (''limit'', JNum 9007199254740991), (''skip'', JNum 0), (''sort'', JArr []), (''select'', JArr [JStr ''*'']), (''omit'', JArr [])]), (''populates'', JObj [(''mom'', JObj [])])],
              log = [CallGetModel ''user'', CallNormalizeCriteria (JObj []) ''user'' True]\<rparr>"
  let ?sf = "\<lparr>qry = [(''using'', JStr ''user''), (''method'', JStr ''find''), (''criteria'', JObj [(''where'', JObj []), (''limit'', JNum 9007199254740991), (''skip'', JNum 0), (''sort'', JArr []), (''select'', JArr [JStr ''*'']), (''omit'', JArr [])]), (''populates'', JObj [(''mom'', JBool True)])],
              log = [CallGetModel ''user'', CallNormalizeCriteria (JObj []) ''user'' True,
                     CallGetAttribute ''mom'' ''user'']\<rparr>"
  let ?pd = "[(''mom'', JObj [])]"
  let ?d = "\<lparr>attr_type = None, attr_model = Some ''user'', attr_collection = None\<rparr>"
  have h1: "forgeStageTwoQuery exampleOrm ?q = forgeKeys ?E ?s0" by code_simp
  have h2: "forgeCriteria ?E ?s0 = Done ?s1" by code_simp
  have h3: "''populates'' \<in> set (queryKeys ?E)" by simp
  have h4: "lookup (qry ?s1) ''populates'' = JObj ?pd" by (simp add: lookup_def)
  have h5: "distinct (map fst ?pd)" by simp
  have h6: "getAttribute (env_orm ?E) ''mom'' (env_using ?E) = Inr ?d"
    by (simp add: exampleOrm_def exampleGetAttribute_def)
  have h7: "truthy_str (attr_model ?d)" by simp
  have h8: "lookup ?pd ''mom'' \<noteq> JBool False" by (simp add: lookup_def)
  have h9: "lookup ?pd ''mom'' \<noteq> JUndef" by (simp add: lookup_def)
  have h10: "getProp (lookup (qry ?s1) ''criteria'') ''select'' = Inr (JArr [JStr ''*''])"
    by (simp add: lookup_def)
  have h11: "getProp (lookup (qry ?s1) ''criteria'') ''omit'' = Inr (JArr [])"
    by (simp add: lookup_def)
  have h12: "JStr ''mom'' \<notin> set []" by simp
  have h13: "getProp (lookup (qry ?s1) ''criteria'') ''sort'' = Inr (JArr [])"
    by (simp add: lookup_def)
  have h14: "\<not> list_ex (\<lambda>c. first_key c = JStr ''mom'') []" by simp
  have h15: "populatesLoop ?E (takeWhile (\<lambda>x. x \<noteq> ''mom'') (own_keys ?pd)) ?s1 = Done ?s1"
    by code_simp
  have good: "lookup ?pd ''mom'' = JObj [] \<or> lookup ?pd ''mom'' = JBool True"
    by (simp add: lookup_def)
  have run: "forgeStageTwoQuery exampleOrm ?q = Done ?sf" by code_simp
  from singular_populate_rhs [OF h1 h2 h3 h4 h5 h6 h7 h8 h9 h10 h11 h12 h13 h14 h15] good run
  have "getPopulate ?sf ''mom'' = JBool True" by blast
  with run show ?thesis by blast
qed

text \<open>
  The claim as stated fails twice.  With \<open>sort: [{mom: 'ASC'}]\<close>, as in the source's own
  example, populating the singular association \<open>mom\<close> with \<open>{}\<close> does not succeed; and
  the right-hand side \<open>false\<close>, which is neither empty nor \<open>true\<close>, does not fail.
\<close>

theorem singular_populate_rhs_counterexample:
  "exampleGetAttribute ''mom'' ''user'' =
     Inr \<lparr>attr_type = None, attr_model = Some ''user'', attr_collection = None\<rparr>
   \<and> forgeStageTwoQuery exampleOrm
       [(''using'', JStr ''user''), (''method'', JStr ''find''),
        (''criteria'', JObj [(''sort'', JArr [JObj [(''mom'', JStr ''ASC'')]])]),
        (''populates'', JObj [(''mom'', JObj [])])]
     = Threw (UsageError ''E_INVALID_POPULATES'')
         \<lparr>qry = [(''using'', JStr ''user''), (''method'', JStr ''find''),
                 (''criteria'', JObj [(''where'', JObj []), (''limit'', JNum 9007199254740991), (''skip'', JNum 0), (''sort'', JArr [JObj [(''mom'', JStr ''ASC'')]]), (''select'', JArr [JStr ''*'']), (''omit'', JArr [])]),
                 (''populates'', JObj [(''mom'', JObj [])])],
          log = [CallGetModel ''user'', CallNormalizeCriteria (JObj [(''sort'', JArr [JObj [(''mom'', JStr ''ASC'')]])]) ''user'' True]\<rparr>
   \<and> forgeStageTwoQuery exampleOrm
       [(''using'', JStr ''user''), (''method'', JStr ''find''),
        (''criteria'', JObj []),
        (''populates'', JObj [(''mom'', JBool False)])]
     = Done \<lparr>qry = [(''using'', JStr ''user''), (''method'', JStr ''find''),
                 (''criteria'', JObj [(''where'', JObj []), (''limit'', JNum 9007199254740991), (''skip'', JNum 0), (''sort'', JArr []), (''select'', JArr [JStr ''*'']), (''omit'', JArr [])]),
                 (''populates'', JObj [])],
          log = [CallGetModel ''user'', CallNormalizeCriteria (JObj []) ''user'' True]\<rparr>"
  by code_simp

subsection \<open>Claim C5\<close>

text \<open>
  C5, as amended.  Let the forge reach the per-key sections (environment \<open>E\<close>, state \<open>s0\<close>),
  let the criteria section complete in state \<open>s1\<close>, whose criteria is the normalized one,
  and let \<open>populates\<close> be a dictionary for a method that accepts it.  If a key \<open>k\<close> of
  \<open>populates\<close> whose right-hand side is neither \<open>false\<close> nor \<open>undefined\<close> is an element of
  the normalized \<open>criteria.omit\<close>, forging fails; and if the entries visited before \<open>k\<close>
  pass, it fails at \<open>k\<close> with the usage error \<open>E_INVALID_POPULATES\<close> (an earlier entry can
  fail first, with its own error).
\<close>

theorem populate_of_omitted_attribute_fails:
  assumes "forgeStageTwoQuery R q = forgeKeys E s0"
    and "forgeCriteria E s0 = Done s1"
    and "''populates'' \<in> set (queryKeys E)"
    and "lookup (qry s1) ''populates'' = JObj pd"
    and "getProp (lookup (qry s1) ''criteria'') ''omit'' = Inr (JArr om)"
    and "JStr k \<in> set om"
    and "lookup pd k \<noteq> JBool False"
    and "lookup pd k \<noteq> JUndef"
  shows "(\<exists>e s. forgeStageTwoQuery R q = Threw e s)
       \<and> (\<forall>s2. populatesLoop E (takeWhile (\<lambda>x. x \<noteq> k) (own_keys pd)) s1 = Done s2 \<longrightarrow>
              forgeStageTwoQuery R q = Threw (UsageError ''E_INVALID_POPULATES'') s2)"
proof -
  let ?pre = "takeWhile (\<lambda>x. x \<noteq> k) (own_keys pd)"
  have k: "k \<in> set (own_keys pd)" using assms(8) by (rule live_key_in_keys)
  have at: "populateEntry E k s2 = Threw (UsageError ''E_INVALID_POPULATES'') s2"
    if pre: "populatesLoop E ?pre s1 = Done s2" for s2
  proof -
    have v: "getPopulate s2 k = lookup pd k"
      using populatesLoop_Done_other [OF pre not_in_prefix] getPopulate_dict [OF assms(4)] by simp
    have o: "getProp (lookup (qry s2) ''criteria'') ''omit'' = Inr (JArr om)"
      using populatesLoop_Done_clause [OF pre, of "''omit''"] assms(5) by simp
    show ?thesis
      using populateEntry_omitted [OF _ _ o, of k E] v assms(6,7,8) by simp
  qed
  then have at': "\<exists>s3. populateEntry E k s2 = Threw (UsageError ''E_INVALID_POPULATES'') s3"
    if "populatesLoop E ?pre s1 = Done s2" for s2 using that by blast
  have lift: "forgeStageTwoQuery R q = Threw e s" if "populatesLoop E (own_keys pd) s1 = Threw e s" for e s
    using that assms(1) forgeKeys_populates_threw [OF assms(2)] forgePopulates_loop [OF assms(3,4)]
    by simp
  from populatesLoop_throws_at [OF k at']
  have 1: "\<exists>e s'. populatesLoop E (own_keys pd) s1 = Threw e s'"
    and 2: "\<And>s2. populatesLoop E ?pre s1 = Done s2 \<Longrightarrow>
            \<exists>s3. populatesLoop E (own_keys pd) s1 = Threw (UsageError ''E_INVALID_POPULATES'') s3
                \<and> populateEntry E k s2 = Threw (UsageError ''E_INVALID_POPULATES'') s3"
    by blast+
  have "forgeStageTwoQuery R q = Threw (UsageError ''E_INVALID_POPULATES'') s2"
    if pre: "populatesLoop E ?pre s1 = Done s2" for s2
    using 2 [OF pre] at [OF pre] lift by auto
  moreover have "\<exists>e s. forgeStageTwoQuery R q = Threw e s" using 1 lift by blast
  ultimately show ?thesis by blast
qed

text \<open>The theorem at \<open>find\<close> with \<open>omit: ['pets']\<close> and \<open>populates: {pets: {}}\<close>.\<close>

theorem populate_of_omitted_attribute_witness:
  "\<exists>s. forgeStageTwoQuery exampleOrm
         [(''using'', JStr ''user''), (''method'', JStr ''find''), (''criteria'', JObj [(''omit'', JArr [JStr ''pets''])]), (''populates'', JObj [(''pets'', JObj [])])]
       = Threw (UsageError ''E_INVALID_POPULATES'') s"
proof -
  let ?q = "[(''using'', JStr ''user''), (''method'', JStr ''find''), (''criteria'', JObj [(''omit'', JArr [JStr ''pets''])]), (''populates'', JObj [(''pets'', JObj [])])]"
  let ?E = "\<lparr>env_orm = exampleOrm, ensureTypeSafety = True, env_using = ''user'', env_method = ''find'', WLModel = \<lparr>primaryKey = ''id''\<rparr>, queryKeys = [''criteria'', ''populates'']\<rparr>"
  let ?s0 = "\<lparr>qry = ?q, log = [CallGetModel ''user'']\<rparr>"
  let ?s1 = "\<lparr>qry = [(''using'', JStr ''user''), (''method'', JStr ''find''), (''criteria'', JObj [(''where'', JObj []), (''limit'', JNum 9007199254740991), (''skip'', JNum 0), (''sort'', JArr []), (''select'', JArr [JStr ''*'']), (''omit'', JArr [JStr ''pets''])]), (''populates'', JObj [(''pets'', JObj [])])],
              log = [CallGetModel ''user'', CallNormalizeCriteria (JObj [(''omit'', JArr [JStr ''pets''])]) ''user'' True]\<rparr>"
  let ?pd = "[(''pets'', JObj [])]"
  have h1: "forgeStageTwoQuery exampleOrm ?q = forgeKeys ?E ?s0" by code_simp
  have h2: "forgeCriteria ?E ?s0 = Done ?s1" by code_simp
  have h3: "''populates'' \<in> set (queryKeys ?E)" by simp
  have h4: "lookup (qry ?s1) ''populates'' = JObj ?pd" by (simp add: lookup_def)
  have h5: "getProp (lookup (qry ?s1) ''criteria'') ''omit'' = Inr (JArr [JStr ''pets''])"
    by (simp add: lookup_def)
  have h6: "JStr ''pets'' \<in> set [JStr ''pets'']" by simp
  have h7: "lookup ?pd ''pets'' \<noteq> JBool False" by (simp add: lookup_def)
  have h8: "lookup ?pd ''pets'' \<noteq> JUndef" by (simp add: lookup_def)
  have pre: "populatesLoop ?E (takeWhile (\<lambda>x. x \<noteq> ''pets'') (own_keys ?pd)) ?s1 = Done ?s1"
    by code_simp
  from populate_of_omitted_attribute_fails [OF h1 h2 h3 h4 h5 h6 h7 h8] pre
  have "forgeStageTwoQuery exampleOrm ?q = Threw (UsageError ''E_INVALID_POPULATES'') ?s1"
    by blast
  then show ?thesis by blast
qed

text \<open>
  The claim as stated fails for a key whose right-hand side is \<open>false\<close>: the directive is
  dropped and forging succeeds although \<open>pets\<close> is a key of \<open>populates\<close> and an element of
  the normalized \<open>omit\<close>.
\<close>

theorem populate_false_of_omitted_attribute_counterexample:
  "forgeStageTwoQuery exampleOrm
     [(''using'', JStr ''user''), (''method'', JStr ''find''),
      (''criteria'', JObj [(''omit'', JArr [JStr ''pets''])]),
      (''populates'', JObj [(''pets'', JBool False)])]
   = Done \<lparr>qry = [(''using'', JStr ''user''), (''method'', JStr ''find''),
                   (''criteria'', JObj [(''where'', JObj []), (''limit'', JNum 9007199254740991), (''skip'', JNum 0), (''sort'', JArr []), (''select'', JArr [JStr ''*'']), (''omit'', JArr [JStr ''pets''])]),
                   (''populates'', JObj [])],
            log = [CallGetModel ''user'', CallNormalizeCriteria (JObj [(''omit'', JArr [JStr ''pets''])]) ''user'' True]\<rparr>"
  by code_simp

subsection \<open>Claim C6\<close>

lemma first_key_single: "first_key (JObj [(k, dir)]) = JStr k"
  by (simp add: own_keys_def)

text \<open>
  C6, as amended.  In the same setting, with the normalized \<open>select\<close> and \<open>sort\<close> clauses
  arrays: if a key \<open>k\<close> of \<open>populates\<close> whose right-hand side is neither \<open>false\<close> nor
  \<open>undefined\<close> is the key of a comparator directive \<open>{k: dir}\<close> of the normalized primary
  \<open>sort\<close>, whatever the direction \<open>dir\<close>, forging fails; and if the entries visited before
  \<open>k\<close> pass, it fails with the usage error \<open>E_INVALID_POPULATES\<close>.
\<close>

theorem populate_of_sorted_attribute_fails:
  assumes "forgeStageTwoQuery R q = forgeKeys E s0"
    and "forgeCriteria E s0 = Done s1"
    and "''populates'' \<in> set (queryKeys E)"
    and "lookup (qry s1) ''populates'' = JObj pd"
    and "getProp (lookup (qry s1) ''criteria'') ''select'' = Inr (JArr sel)"
    and "getProp (lookup (qry s1) ''criteria'') ''sort'' = Inr (JArr ds)"
    and "JObj [(k, dir)] \<in> set ds"
    and "lookup pd k \<noteq> JBool False"
    and "lookup pd k \<noteq> JUndef"
  shows "(\<exists>e s. forgeStageTwoQuery R q = Threw e s)
       \<and> (\<forall>s2. populatesLoop E (takeWhile (\<lambda>x. x \<noteq> k) (own_keys pd)) s1 = Done s2 \<longrightarrow>
              (\<exists>s3. forgeStageTwoQuery R q = Threw (UsageError ''E_INVALID_POPULATES'') s3))"
proof -
  let ?pre = "takeWhile (\<lambda>x. x \<noteq> k) (own_keys pd)"
  have k: "k \<in> set (own_keys pd)" using assms(9) by (rule live_key_in_keys)
  have m: "mentionedInSort (JArr ds) k"
    unfolding mentionedInSort.simps list_ex_iff
    using assms(7) first_key_single [of k dir] by (intro bexI [of _ "JObj [(k, dir)]"])
  have at: "\<exists>s3. populateEntry E k s2 = Threw (UsageError ''E_INVALID_POPULATES'') s3"
    if pre: "populatesLoop E ?pre s1 = Done s2" for s2
  proof -
    have v: "getPopulate s2 k = lookup pd k"
      using populatesLoop_Done_other [OF pre not_in_prefix] getPopulate_dict [OF assms(4)] by simp
    have o: "getProp (lookup (qry s2) ''criteria'') ''sort'' = Inr (JArr ds)"
      using populatesLoop_Done_clause [OF pre, of "''sort''"] assms(6) by simp
    obtain sel' where sl: "getProp (lookup (qry s2) ''criteria'') ''select'' = Inr (JArr sel')"
      using populatesLoop_Done_select [OF pre assms(5)] by blast
    show ?thesis
      using populateEntry_sorted [OF _ _ sl o m, of E] v assms(8,9) by simp
  qed
  have lift: "forgeStageTwoQuery R q = Threw e s" if "populatesLoop E (own_keys pd) s1 = Threw e s" for e s
    using that assms(1) forgeKeys_populates_threw [OF assms(2)] forgePopulates_loop [OF assms(3,4)]
    by simp
  from populatesLoop_throws_at [OF k at]
  have 1: "\<exists>e s'. populatesLoop E (own_keys pd) s1 = Threw e s'"
    and 2: "\<And>s2. populatesLoop E ?pre s1 = Done s2 \<Longrightarrow>
            \<exists>s3. populatesLoop E (own_keys pd) s1 = Threw (UsageError ''E_INVALID_POPULATES'') s3
                \<and> populateEntry E k s2 = Threw (UsageError ''E_INVALID_POPULATES'') s3"
    by blast+
  have "\<exists>s3. forgeStageTwoQuery R q = Threw (UsageError ''E_INVALID_POPULATES'') s3"
    if pre: "populatesLoop E ?pre s1 = Done s2" for s2
    using 2 [OF pre] lift by blast
  moreover have "\<exists>e s. forgeStageTwoQuery R q = Threw e s" using 1 lift by blast
  ultimately show ?thesis by blast
qed


text \<open>The theorem at \<open>find\<close> with \<open>sort: [{mom: 'ASC'}]\<close> and \<open>populates: {mom: {}}\<close>.\<close>

theorem populate_of_sorted_attribute_witness:
  "\<exists>s. forgeStageTwoQuery exampleOrm
         [(''using'', JStr ''user''), (''method'', JStr ''find''), (''criteria'', JObj [(''sort'', JArr [JObj [(''mom'', JStr ''ASC'')]])]), (''populates'', JObj [(''mom'', JObj [])])]
       = Threw (UsageError ''E_INVALID_POPULATES'') s"
proof -
  let ?q = "[(''using'', JStr ''user''), (''method'', JStr ''find''), (''criteria'', JObj [(''sort'', JArr [JObj [(''mom'', JStr ''ASC'')]])]), (''populates'', JObj [(''mom'', JObj [])])]"
  let ?E = "\<lparr>env_orm = exampleOrm, ensureTypeSafety = True, env_using = ''user'', env_method = ''find'', WLModel = \<lparr>primaryKey = ''id''\<rparr>, queryKeys = [''criteria'', ''populates'']\<rparr>"
  let ?s0 = "\<lparr>qry = ?q, log = [CallGetModel ''user'']\<rparr>"
  let ?s1 = "\<lparr>qry = [(''using'', JStr ''user''), (''method'', JStr ''find''), (''criteria'', JObj [(''where'', JObj []), (''limit'', JNum 9007199254740991), (''skip'', JNum 0), (''sort'', JArr [JObj [(''mom'', JStr ''ASC'')]]), (''select'', JArr [JStr ''*'']), (''omit'', JArr [])]), (''populates'', JObj [(''mom'', JObj [])])],
              log = [CallGetModel ''user'', CallNormalizeCriteria (JObj [(''sort'', JArr [JObj [(''mom'', JStr ''ASC'')]])]) ''user'' True]\<rparr>"
  let ?pd = "[(''mom'', JObj [])]"
  have h1: "forgeStageTwoQuery exampleOrm ?q = forgeKeys ?E ?s0" by code_simp
  have h2: "forgeCriteria ?E ?s0 = Done ?s1" by code_simp
  have h3: "''populates'' \<in> set (queryKeys ?E)" by simp
  have h4: "lookup (qry ?s1) ''populates'' = JObj ?pd" by (simp add: lookup_def)
  have h5: "getProp (lookup (qry ?s1) ''criteria'') ''select'' = Inr (JArr [JStr ''*''])"
    by (simp add: lookup_def)
  have h6: "getProp (lookup (qry ?s1) ''criteria'') ''sort'' = Inr (JArr [JObj [(''mom'', JStr ''ASC'')]])"
    by (simp add: lookup_def)
  have h7: "JObj [(''mom'', JStr ''ASC'')] \<in> set [JObj [(''mom'', JStr ''ASC'')]]" by simp
  have h8: "lookup ?pd ''mom'' \<noteq> JBool False" by (simp add: lookup_def)
  have h9: "lookup ?pd ''mom'' \<noteq> JUndef" by (simp add: lookup_def)
  have pre: "populatesLoop ?E (takeWhile (\<lambda>x. x \<noteq> ''mom'') (own_keys ?pd)) ?s1 = Done ?s1"
    by code_simp
  from populate_of_sorted_attribute_fails [OF h1 h2 h3 h4 h5 h6 h7 h8 h9] pre
  show ?thesis by blast
qed

text \<open>
  The claim as stated fails for a key whose right-hand side is \<open>false\<close>: forging succeeds
  although \<open>mom\<close> is a key of \<open>populates\<close> and the key of a comparator directive.
\<close>

theorem populate_false_of_sorted_attribute_counterexample:
  "forgeStageTwoQuery exampleOrm
     [(''using'', JStr ''user''), (''method'', JStr ''find''),
      (''criteria'', JObj [(''sort'', JArr [JObj [(''mom'', JStr ''ASC'')]])]),
      (''populates'', JObj [(''mom'', JBool False)])]
   = Done \<lparr>qry = [(''using'', JStr ''user''), (''method'', JStr ''find''),
                   (''criteria'', JObj [(''where'', JObj []), (''limit'', JNum 9007199254740991), (''skip'', JNum 0), (''sort'', JArr [JObj [(''mom'', JStr ''ASC'')]]), (''select'', JArr [JStr ''*'']), (''omit'', JArr [])]),
                   (''populates'', JObj [])],
            log = [CallGetModel ''user'', CallNormalizeCriteria (JObj [(''sort'', JArr [JObj [(''mom'', JStr ''ASC'')]])]) ''user'' True]\<rparr>"
  by code_simp

section \<open>Properties of the join integrator\<close>

subsection \<open>Shared facts\<close>

lemma bindE_Inr: "bindE m f = Inr y \<Longrightarrow> \<exists>x. m = Inr x \<and> f x = Inr y"
  by (cases m) (auto simp: bindE_def)

lemma junctionArgs_Inr:
  assumes "junctionArgs P H cache results al i0 i1 = Inr a"
  shows "parentRows a = results \<and> aliasName a = al"
  using assms unfolding junctionArgs_def
  by (auto dest!: bindE_Inr)

lemma directArgs_Inr:
  assumes "directArgs P H cache results al i0 = Inr a"
  shows "parentRows a = results \<and> aliasName a = al"
  using assms unfolding directArgs_def
  by (auto dest!: bindE_Inr)

lemma argsFor_Inr:
  assumes "argsFor P h cache results g = Inr a"
  shows "parentRows a = results \<and> aliasName a = fst g"
  using assms junctionArgs_Inr directArgs_Inr unfolding argsFor_def
  by (auto split: if_splits)

lemma doPopulate_Inr:
  assumes "doPopulate P args s = Inr s'"
  shows "\<exists>a. args = Inr a \<and> populate P (heap s) a = Inr (heap s')
            \<and> populateCalls s' = populateCalls s @ [a]"
  using assms unfolding doPopulate_def
  by (auto split: sum.splits)

text \<open>A visit either attaches, with one call of \<open>populate\<close>, or changes nothing.\<close>

lemma eachAssociation_Inr:
  assumes "eachAssociation P cache results g s = Inr s'"
  shows "(\<not> attaches P (heap s) g \<and> s' = s)
       \<or> (attaches P (heap s) g
          \<and> (\<exists>a. argsFor P (heap s) cache results g = Inr a
                 \<and> populate P (heap s) a = Inr (heap s')
                 \<and> populateCalls s' = populateCalls s @ [a]))"
proof -
  let ?len = "memberOf P (heap s) (snd g) ''length''"
  have nn: "\<not> nullish (deref (heap s) (snd g))"
    using assms by (auto simp: eachAssociation_def Let_def bindE_def readProp_def split: if_splits)
  show ?thesis
  proof (cases "?len = JNum 2")
    case True
    then have "doPopulate P (argsFor P (heap s) cache results g) s = Inr s'"
      using assms nn by (simp add: eachAssociation_def Let_def bindE_def readProp_def argsFor_def)
    from doPopulate_Inr [OF this] True nn show ?thesis by (auto simp: attaches_def)
  next
    case False
    show ?thesis
    proof (cases "?len = JNum 1")
      case True
      then have "doPopulate P (argsFor P (heap s) cache results g) s = Inr s'"
        using assms nn False by (simp add: eachAssociation_def Let_def bindE_def readProp_def argsFor_def)
      from doPopulate_Inr [OF this] True nn show ?thesis by (auto simp: attaches_def)
    next
      case F1: False
      with False assms nn show ?thesis
        by (simp add: eachAssociation_def Let_def bindE_def readProp_def attaches_def)
    qed
  qed
qed

text \<open>A visit of a fresh array attaches or not by the length of the array, whatever the heap.\<close>

lemma attaches_fresh:
  "snd g = JArr xs \<Longrightarrow> attaches P h g = (length xs = 1 \<or> length xs = 2)"
  by (auto simp: attaches_def memberOf_def deref_def)

lemma attaches_skipped:
  "snd g = JArr xs \<Longrightarrow> attaches P h g = (\<not> skipped g)"
  by (auto simp: attaches_fresh skipped_def)

lemma filter_attaches_fresh:
  "list_all (\<lambda>g. \<exists>xs. snd g = JArr xs) gs \<Longrightarrow>
     filter (attaches P h) gs = filter (\<lambda>g. \<not> skipped g) gs"
  by (induction gs) (auto simp: attaches_skipped)

text \<open>The visits are of fresh arrays, or there is the one visit of an array-like object.\<close>

lemma visits_shape:
  "list_all (\<lambda>g. \<exists>xs. snd g = JArr xs) (visits P H is) \<or> (\<exists>g. visits P H is = [g])"
  by (auto simp: visits_def Let_def list_all_iff split: option.splits)

text \<open>The calls of a completed loop over visits of fresh arrays.\<close>

lemma eachGroup_fresh:
  assumes "eachGroup P cache results gs s = Inr s'"
    and "list_all (\<lambda>g. \<exists>xs. snd g = JArr xs) gs"
  shows "\<exists>new. populateCalls s' = populateCalls s @ new
          \<and> heap s' = foldl (afterCall P) (heap s) new
          \<and> attachedInOrder P cache results (heap s) (filter (\<lambda>g. \<not> skipped g) gs) new"
  using assms
proof (induction gs arbitrary: s)
  case Nil
  then show ?case by simp
next
  case (Cons g gs)
  obtain xs where xs: "snd g = JArr xs" using Cons.prems(2) by auto
  obtain s1 where s1: "eachAssociation P cache results g s = Inr s1"
    "eachGroup P cache results gs s1 = Inr s'"
    using Cons.prems(1) by (cases "eachAssociation P cache results g s") auto
  have fresh: "list_all (\<lambda>g. \<exists>xs. snd g = JArr xs) gs" using Cons.prems(2) by simp
  from Cons.IH [OF s1(2) fresh] obtain new where new:
    "populateCalls s' = populateCalls s1 @ new"
    "heap s' = foldl (afterCall P) (heap s1) new"
    "attachedInOrder P cache results (heap s1) (filter (\<lambda>g. \<not> skipped g) gs) new"
    by blast
  from eachAssociation_Inr [OF s1(1)] show ?case
  proof
    assume a: "\<not> attaches P (heap s) g \<and> s1 = s"
    then have "skipped g" by (simp add: attaches_skipped [OF xs])
    with a new show ?thesis by auto
  next
    assume "attaches P (heap s) g
          \<and> (\<exists>a. argsFor P (heap s) cache results g = Inr a
                 \<and> populate P (heap s) a = Inr (heap s1)
                 \<and> populateCalls s1 = populateCalls s @ [a])"
    then obtain a where att: "attaches P (heap s) g"
      and a: "argsFor P (heap s) cache results g = Inr a"
        "populate P (heap s) a = Inr (heap s1)"
        "populateCalls s1 = populateCalls s @ [a]" by blast
    have ns: "\<not> skipped g" using att by (simp add: attaches_skipped [OF xs])
    have "populateCalls s' = populateCalls s @ (a # new)" using new(1) a(3) by simp
    moreover have "heap s' = foldl (afterCall P) (heap s) (a # new)"
      using new(2) a(2) by (simp add: afterCall_def)
    moreover have "attachedInOrder P cache results (heap s) (filter (\<lambda>g. \<not> skipped g) (g # gs)) (a # new)"
      using ns a(1,2) new(3) argsFor_Inr [OF a(1)] by simp
    ultimately show ?thesis by blast
  qed
qed

text \<open>The calls of a completed loop over the visits \<open>integrate\<close> makes.\<close>

lemma eachGroup_calls:
  assumes "eachGroup P cache results gs s = Inr s'"
    and "list_all (\<lambda>g. \<exists>xs. snd g = JArr xs) gs \<or> (\<exists>g. gs = [g])"
  shows "\<exists>new. populateCalls s' = populateCalls s @ new
          \<and> heap s' = foldl (afterCall P) (heap s) new
          \<and> attachedInOrder P cache results (heap s) (filter (attaches P (heap s)) gs) new"
  using assms(2)
proof
  assume f: "list_all (\<lambda>g. \<exists>xs. snd g = JArr xs) gs"
  from eachGroup_fresh [OF assms(1) f] filter_attaches_fresh [OF f, of P "heap s"]
  show ?thesis by simp
next
  assume "\<exists>g. gs = [g]"
  then obtain g where g: "gs = [g]" by blast
  then have e: "eachAssociation P cache results g s = Inr s'"
    using assms(1) by (cases "eachAssociation P cache results g s") auto
  from eachAssociation_Inr [OF e] show ?thesis
  proof
    assume "\<not> attaches P (heap s) g \<and> s' = s"
    then show ?thesis using g by simp
  next
    assume "attaches P (heap s) g
          \<and> (\<exists>a. argsFor P (heap s) cache results g = Inr a
                 \<and> populate P (heap s) a = Inr (heap s')
                 \<and> populateCalls s' = populateCalls s @ [a])"
    then obtain a where att: "attaches P (heap s) g"
      and a: "argsFor P (heap s) cache results g = Inr a"
        "populate P (heap s) a = Inr (heap s')"
        "populateCalls s' = populateCalls s @ [a]" by blast
    have "heap s' = foldl (afterCall P) (heap s) [a]" using a(2) by (simp add: afterCall_def)
    moreover have "attachedInOrder P cache results (heap s) (filter (attaches P (heap s)) gs) [a]"
      using g att a(1,2) argsFor_Inr [OF a(1)] by simp
    ultimately show ?thesis using a(3) by blast
  qed
qed

lemma attachedInOrder_aliases:
  "attachedInOrder P cache results h gs calls \<Longrightarrow> map aliasName calls = map fst gs"
  by (induction P cache results h gs calls rule: attachedInOrder.induct)
     (auto split: sum.splits)


lemma usageCheck_not_null: "usageCheck P H cache ji cb \<noteq> JNull"
  by (simp add: usageCheck_def orElse_def anchorTo_def)

text \<open>What a completed run of \<open>integrate\<close> has done.\<close>

lemma integrate_Returned:
  assumes "integrate P H cache joinInstructions cb = Returned JNull results s"
  shows "\<not> truthy (usageCheck P H cache joinInstructions cb)
       \<and> results = memberOf P H cache
                     (toKey P H (memberOf P H (memberOf P H joinInstructions ''0'') ''parent''))
       \<and> eachGroup P cache results (visits P H (elements H joinInstructions))
            \<lparr>heap = H, populateCalls = []\<rparr> = Inr s"
proof -
  let ?r = "memberOf P H cache
              (toKey P H (memberOf P H (memberOf P H joinInstructions ''0'') ''parent''))"
  have ok: "\<not> truthy (usageCheck P H cache joinInstructions cb)"
    using assms usageCheck_not_null [of P H cache joinInstructions cb]
    by (auto simp: integrate_def Let_def split: if_splits)
  then have "(if objectKeysThrows P H (memberOf P H ?r ''0'') then Raised TypeError \<lparr>heap = H, populateCalls = []\<rparr>
              else (case eachGroup P cache ?r (visits P H (elements H joinInstructions))
                           \<lparr>heap = H, populateCalls = []\<rparr> of
                      Inl (e, s) \<Rightarrow> Raised e s
                    | Inr s \<Rightarrow> Returned JNull ?r s)) = Returned JNull results s"
    using assms by (simp add: integrate_def Let_def)
  then have r: "results = ?r"
    and e: "eachGroup P cache ?r (visits P H (elements H joinInstructions))
                           \<lparr>heap = H, populateCalls = []\<rparr> = Inr s"
    by (auto split: if_splits sum.splits prod.splits)
  show ?thesis unfolding r using ok e by simp
qed

lemma integrate_calls:
  assumes "integrate P H cache joinInstructions cb = Returned JNull results s"
  shows "heap s = foldl (afterCall P) H (populateCalls s)
       \<and> attachedInOrder P cache results H
           (filter (attaches P H) (visits P H (elements H joinInstructions))) (populateCalls s)"
proof -
  from integrate_Returned [OF assms]
  have run: "eachGroup P cache results (visits P H (elements H joinInstructions))
            \<lparr>heap = H, populateCalls = []\<rparr> = Inr s" by blast
  from eachGroup_calls [OF run visits_shape] show ?thesis by auto
qed

subsection \<open>Claim C9\<close>



subsection \<open>The example cache\<close>

lemmas example_eval = usageCheck_def orElse_def anchorTo_def anchorRule_def deref_def memberOf_def
  toKey_def lookup_def is_array_index_def is_digit_def digits_val_def exampleHeap_def
  exampleCache_def exampleJunction_def elements_def specPrims_def exampleHost_def
  objectKeysThrows_def

lemma example_visits:
  "visits (specPrims exampleHost) exampleHeap (elements exampleHeap (JArr exampleJunction))
     = [(JStr ''pets'', JArr exampleJunction)]"
  by (simp add: example_eval visits_def groupByAlias_def groupStep_def aliasKey_def Let_def)

lemma example_args:
  "junctionArgs (specPrims exampleHost) exampleHeap exampleCache (JRef 0) (JStr ''pets'')
          (exampleJunction ! 0) (exampleJunction ! Suc 0)
   = Inr \<lparr>parentRows = JRef 0, aliasName = JStr ''pets'',
          childRows = JArr [JObj [(''id'', JNum 1), (''user_id'', JNum 1), (''pet_id'', JNum 10),
                                  (''pid'', JNum 10)]],
          parentPK = JStr ''id'', childPK = JStr ''pid'', fkToChild = JStr ''pet_id''\<rparr>"
  by (simp add: junctionArgs_def bindE_def cacheAt_def readProp_def callPrim_def
        specLeftOuterJoin_def specInnerJoin_def rowsOf_def matches_def paired_def example_eval)

text \<open>
  On the example, with the primitives of the specification, the integrator completes:
  user 1 gets the one pet the junction links to it, user 2 none.
\<close>

lemma example_run:
  "integrate (specPrims exampleHost) exampleHeap exampleCache (JArr exampleJunction) (JFun 0)
     = Returned JNull (JRef 0)
         \<lparr>heap = exampleHeap
            (1 \<mapsto> JObj [(''id'', JNum 1),
                         (''pets'', JArr [JObj [(''id'', JNum 1), (''user_id'', JNum 1),
                                                (''pet_id'', JNum 10), (''pid'', JNum 10)]])],
             2 \<mapsto> JObj [(''id'', JNum 2), (''pets'', JArr [])]),
          populateCalls =
            [\<lparr>parentRows = JRef 0, aliasName = JStr ''pets'',
              childRows = JArr [JObj [(''id'', JNum 1), (''user_id'', JNum 1),
                                      (''pet_id'', JNum 10), (''pid'', JNum 10)]],
              parentPK = JStr ''id'', childPK = JStr ''pid'', fkToChild = JStr ''pet_id''\<rparr>]\<rparr>"
proof -
  have u: "\<not> truthy (usageCheck (specPrims exampleHost) exampleHeap exampleCache (JArr exampleJunction) (JFun 0))"
    by (simp add: example_eval)
  have r: "memberOf (specPrims exampleHost) exampleHeap exampleCache
             (toKey (specPrims exampleHost) exampleHeap
                (memberOf (specPrims exampleHost) exampleHeap
                   (memberOf (specPrims exampleHost) exampleHeap (JArr exampleJunction) ''0'') ''parent''))
           = JRef 0"
    by (simp add: example_eval)
  have n: "\<not> objectKeysThrows (specPrims exampleHost) exampleHeap
               (memberOf (specPrims exampleHost) exampleHeap (JRef 0) ''0'')"
    by (simp add: example_eval)
  have l: "readProp (specPrims exampleHost) exampleHeap (JArr exampleJunction) ''length'' = Inr (JNum 2)"
    and i0: "memberOf (specPrims exampleHost) exampleHeap (JArr exampleJunction) ''0'' = exampleJunction ! 0"
    and i1: "memberOf (specPrims exampleHost) exampleHeap (JArr exampleJunction) ''1'' = exampleJunction ! 1"
    by (simp_all add: readProp_def memberOf_def deref_def is_array_index_def is_digit_def
          digits_val_def exampleJunction_def)
  have p: "populate (specPrims exampleHost) exampleHeap
             \<lparr>parentRows = JRef 0, aliasName = JStr ''pets'',
              childRows = JArr [JObj [(''id'', JNum 1), (''user_id'', JNum 1),
                                      (''pet_id'', JNum 10), (''pid'', JNum 10)]],
              parentPK = JStr ''id'', childPK = JStr ''pid'', fkToChild = JStr ''pet_id''\<rparr>
           = Inr (exampleHeap
            (1 \<mapsto> JObj [(''id'', JNum 1),
                         (''pets'', JArr [JObj [(''id'', JNum 1), (''user_id'', JNum 1),
                                                (''pet_id'', JNum 10), (''pid'', JNum 10)]])],
             2 \<mapsto> JObj [(''id'', JNum 2), (''pets'', JArr [])]))"
    by (simp add: specPrims_def specPopulate_def attach_def belongsTo_def matches_def toKey_def
          elements_def deref_def exampleHeap_def lookup_def)
  have "eachAssociation (specPrims exampleHost) exampleCache (JRef 0) (JStr ''pets'', JArr exampleJunction)
          \<lparr>heap = exampleHeap, populateCalls = []\<rparr>
        = Inr \<lparr>heap = exampleHeap
            (1 \<mapsto> JObj [(''id'', JNum 1),
                         (''pets'', JArr [JObj [(''id'', JNum 1), (''user_id'', JNum 1),
                                                (''pet_id'', JNum 10), (''pid'', JNum 10)]])],
             2 \<mapsto> JObj [(''id'', JNum 2), (''pets'', JArr [])]),
          populateCalls =
            [\<lparr>parentRows = JRef 0, aliasName = JStr ''pets'',
              childRows = JArr [JObj [(''id'', JNum 1), (''user_id'', JNum 1),
                                      (''pet_id'', JNum 10), (''pid'', JNum 10)]],
              parentPK = JStr ''id'', childPK = JStr ''pid'', fkToChild = JStr ''pet_id''\<rparr>]\<rparr>"
    by (simp add: eachAssociation_def Let_def bindE_def l i0 i1 example_args doPopulate_def p)
  then show ?thesis
    using u n by (simp add: integrate_def r example_visits Let_def)
qed


subsection \<open>Claim C10\<close>

lemma eachAssociation_skip:
  "skipped g \<Longrightarrow> eachAssociation P cache results g s = Inr s"
  by (auto simp: skipped_def eachAssociation_def Let_def bindE_def readProp_def memberOf_def
        deref_def split: jsval.splits)

lemma eachGroup_filter:
  "eachGroup P cache results gs s =
     eachGroup P cache results (filter (\<lambda>g. \<not> skipped g) gs) s"
proof (induction gs arbitrary: s)
  case Nil
  then show ?case by simp
next
  case (Cons g gs)
  show ?case
  proof (cases "skipped g")
    case False
    then show ?thesis using Cons.IH
      by (cases "eachAssociation P cache results g s") simp_all
  next
    case True
    then have "eachAssociation P cache results g s = Inr s"
      by (rule eachAssociation_skip)
    with True show ?thesis using Cons.IH by simp
  qed
qed

lemma all_skipped:
  "list_all (\<lambda>g. case snd g of JArr xs \<Rightarrow> 3 \<le> length xs | _ \<Rightarrow> False) gs \<Longrightarrow>
     filter (\<lambda>g. \<not> skipped g) gs = []"
  by (induction gs) (auto simp: skipped_def split: jsval.splits)

text \<open>
  C10, as amended.  For a group of three or more instructions \<open>eachAssociation\<close> does
  nothing: it calls no primitive, leaves the heap as it is and raises nothing.  The loop
  over the visits gives the same result as the loop over the visits that remain when the
  groups of a size other than one and two are left out.  So when the usage check passes and
  \<open>Object.keys\<close> of the first parent row does not throw, \<open>integrate\<close> ends as the loop over
  the groups of one or two instructions ends: it raises what one of them raises, or calls
  the callback with a null error and the cached parent rows.  In particular, when every
  group has three or more instructions, it calls the callback with a null error and the
  cached parent rows, the heap unchanged and \<open>populate\<close> never called.
\<close>

theorem larger_groups_attach_nothing:
  "(3 \<le> length instructions \<longrightarrow>
      eachAssociation P cache results (al, JArr instructions) s = Inr s)
   \<and> eachGroup P cache results gs s =
       eachGroup P cache results (filter (\<lambda>g. \<not> skipped g) gs) s
   \<and> (\<not> truthy (usageCheck P H cache joinInstructions cb)
       \<and> \<not> objectKeysThrows P H (memberOf P H (memberOf P H cache
               (toKey P H (memberOf P H (memberOf P H joinInstructions ''0'') ''parent''))) ''0'')
      \<longrightarrow> integrate P H cache joinInstructions cb =
            (case eachGroup P cache
                    (memberOf P H cache
                       (toKey P H (memberOf P H (memberOf P H joinInstructions ''0'') ''parent'')))
                    (filter (\<lambda>g. \<not> skipped g) (visits P H (elements H joinInstructions)))
                    \<lparr>heap = H, populateCalls = []\<rparr> of
               Inl (e, s) \<Rightarrow> Raised e s
             | Inr s \<Rightarrow>
                 Returned JNull
                   (memberOf P H cache
                      (toKey P H (memberOf P H (memberOf P H joinInstructions ''0'') ''parent'')))
                   s))
   \<and> (\<not> truthy (usageCheck P H cache joinInstructions cb)
       \<and> \<not> objectKeysThrows P H (memberOf P H (memberOf P H cache
               (toKey P H (memberOf P H (memberOf P H joinInstructions ''0'') ''parent''))) ''0'')
       \<and> list_all (\<lambda>g. case snd g of JArr xs \<Rightarrow> 3 \<le> length xs | _ \<Rightarrow> False)
            (visits P H (elements H joinInstructions))
      \<longrightarrow> integrate P H cache joinInstructions cb =
            Returned JNull
              (memberOf P H cache
                 (toKey P H (memberOf P H (memberOf P H joinInstructions ''0'') ''parent'')))
              \<lparr>heap = H, populateCalls = []\<rparr>)"
proof -
  let ?r = "memberOf P H cache
              (toKey P H (memberOf P H (memberOf P H joinInstructions ''0'') ''parent''))"
  let ?gs = "visits P H (elements H joinInstructions)"
  let ?s0 = "\<lparr>heap = H, populateCalls = []\<rparr>"
  have one: "eachAssociation P cache results (al, JArr instructions) s = Inr s"
    if "3 \<le> length instructions"
    using that by (intro eachAssociation_skip) (simp add: skipped_def)
  have two: "eachGroup P cache results gs s =
       eachGroup P cache results (filter (\<lambda>g. \<not> skipped g) gs) s"
    by (rule eachGroup_filter)
  have three: "integrate P H cache joinInstructions cb =
            (case eachGroup P cache ?r (filter (\<lambda>g. \<not> skipped g) ?gs) ?s0 of
               Inl (e, s) \<Rightarrow> Raised e s
             | Inr s \<Rightarrow> Returned JNull ?r s)"
    if "\<not> truthy (usageCheck P H cache joinInstructions cb)
       \<and> \<not> objectKeysThrows P H (memberOf P H ?r ''0'')"
    using that eachGroup_filter [of P cache ?r ?gs ?s0]
    by (simp add: integrate_def Let_def)
  have four: "integrate P H cache joinInstructions cb = Returned JNull ?r ?s0"
    if "\<not> truthy (usageCheck P H cache joinInstructions cb)
       \<and> \<not> objectKeysThrows P H (memberOf P H ?r ''0'')
       \<and> list_all (\<lambda>g. case snd g of JArr xs \<Rightarrow> 3 \<le> length xs | _ \<Rightarrow> False) ?gs"
    using that three all_skipped [of ?gs] by simp
  from one two three four show ?thesis by blast
qed

text \<open>The theorem on the example cache with a third instruction under the alias \<open>pets\<close>.\<close>

theorem larger_groups_attach_nothing_witness:
  "integrate (specPrims exampleHost) exampleHeap exampleCache
     (JArr (exampleJunction @ [JObj [(''parent'', JStr ''pet''), (''alias'', JStr ''pets'')]]))
     (JFun 0)
   = Returned JNull (JRef 0) \<lparr>heap = exampleHeap, populateCalls = []\<rparr>"
proof -
  let ?P = "specPrims exampleHost"
  let ?ji = "JArr (exampleJunction @ [JObj [(''parent'', JStr ''pet''), (''alias'', JStr ''pets'')]])"
  let ?r = "memberOf ?P exampleHeap exampleCache
              (toKey ?P exampleHeap (memberOf ?P exampleHeap (memberOf ?P exampleHeap ?ji ''0'') ''parent''))"
  have r: "?r = JRef 0" by (simp add: example_eval)
  have h1: "\<not> truthy (usageCheck ?P exampleHeap exampleCache ?ji (JFun 0))"
    by (simp add: example_eval)
  have h2: "\<not> objectKeysThrows ?P exampleHeap (memberOf ?P exampleHeap ?r ''0'')"
    unfolding r by (simp add: example_eval)
  have h3: "list_all (\<lambda>g. case snd g of JArr xs \<Rightarrow> 3 \<le> length xs | _ \<Rightarrow> False)
              (visits ?P exampleHeap (elements exampleHeap ?ji))"
    by (simp add: example_eval visits_def groupByAlias_def groupStep_def aliasKey_def Let_def)
  from larger_groups_attach_nothing [where P = ?P and H = exampleHeap and cache = exampleCache
      and joinInstructions = ?ji and cb = "JFun 0"]
    h1 h2 h3
  have "integrate ?P exampleHeap exampleCache ?ji (JFun 0) =
          Returned JNull ?r \<lparr>heap = exampleHeap, populateCalls = []\<rparr>" by blast
  then show ?thesis unfolding r .
qed

text \<open>
  The claim as stated promises a null error whenever a group has three or more
  instructions.  With a cache that has no table \<open>user\<close> the usage check fails and the
  callback is handed the list of errors; and with a table \<open>user\<close> that has no row,
  \<open>Object.keys\<close> of the first parent row throws before any group is visited.
\<close>

theorem larger_group_without_parent_rows_counterexample:
  "integrate (specPrims exampleHost) exampleHeap (JObj [])
     (JArr (exampleJunction @ [JObj [(''parent'', JStr ''pet''), (''alias'', JStr ''pets'')]]))
     (JFun 0)
   = Returned (JArr [JObj [(''rule'', JStr ''object'')]]) JUndef
       \<lparr>heap = exampleHeap, populateCalls = []\<rparr>
   \<and> integrate (specPrims exampleHost) [0 \<mapsto> JArr []] (JObj [(''user'', JRef 0)])
     (JArr (exampleJunction @ [JObj [(''parent'', JStr ''pet''), (''alias'', JStr ''pets'')]]))
     (JFun 0)
   = Raised TypeError \<lparr>heap = [0 \<mapsto> JArr []], populateCalls = []\<rparr>"
  by (simp add: integrate_def Let_def example_eval)

subsection \<open>Claim C7\<close>

text \<open>
  C7 does not hold of the code.  With a valid cache whose parent table has no rows, a
  single valid instruction and a function as callback, the usage check passes and
  \<open>Object.keys(cache[parent][0])\<close> throws a \<open>TypeError\<close>; and when the usage check fails
  while \<open>cb\<close> is no function, the call \<open>cb(invalid)\<close> throws as well.  Both hold whatever
  the join primitives are.
\<close>

theorem integrate_throws_on_empty_parent_rows:
  "integrate P [0 \<mapsto> JArr []]
     (JObj [(''user'', JRef 0)])
     (JArr [JObj [(''parent'', JStr ''user''), (''child'', JStr ''pet''),
                  (''parentKey'', JStr ''id''), (''childKey'', JStr ''userId''),
                  (''alias'', JStr ''pets'')]])
     (JFun 0)
   = Raised TypeError \<lparr>heap = [0 \<mapsto> JArr []], populateCalls = []\<rparr>
   \<and> integrate P H JNull JNull JUndef = Raised TypeError \<lparr>heap = H, populateCalls = []\<rparr>"
  by (simp add: integrate_def usageCheck_def orElse_def anchorTo_def anchorRule_def deref_def
        memberOf_def toKey_def objectKeysThrows_def lookup_def is_array_index_def is_digit_def
        digits_val_def Let_def)

subsection \<open>Claim C8\<close>

text \<open>The call made for a visit, by its place among the calls.\<close>

lemma attachedInOrder_length:
  "attachedInOrder P cache results h gs calls \<Longrightarrow> length gs = length calls"
  using attachedInOrder_aliases [of P cache results h gs calls, THEN arg_cong, of length]
  by simp

lemma attachedInOrder_nth:
  "attachedInOrder P cache results h gs calls \<Longrightarrow> i < length calls \<Longrightarrow>
     length gs = length calls
     \<and> argsFor P (foldl (afterCall P) h (take i calls)) cache results (gs ! i) = Inr (calls ! i)
     \<and> populate P (foldl (afterCall P) h (take i calls)) (calls ! i)
         = Inr (foldl (afterCall P) h (take (Suc i) calls))"
proof (induction P cache results h gs calls arbitrary: i rule: attachedInOrder.induct)
  case (2 P cache results h g gs a calls)
  then obtain h' where h': "populate P h a = Inr h'"
    and rest: "attachedInOrder P cache results h' gs calls"
    and a: "argsFor P h cache results g = Inr a"
    by (auto split: sum.splits)
  have ac: "afterCall P h a = h'" using h' by (simp add: afterCall_def)
  show ?case
  proof (cases i)
    case 0
    then show ?thesis using a h' ac attachedInOrder_length [OF rest] by simp
  next
    case (Suc j)
    then have j: "j < length calls" using "2.prems"(2) by simp
    from "2.IH" [OF h' rest j] show ?thesis using Suc ac by simp
  qed
qed simp_all

text \<open>The argument computed for a junction, when its evaluation completes.\<close>

lemma readProp_Inr: "readProp P h v k = Inr x \<Longrightarrow> x = memberOf P h v k"
  by (auto simp: readProp_def split: if_splits)

lemma cacheAt_Inr:
  "cacheAt P h cache i field = Inr x \<Longrightarrow>
     x = memberOf P h cache (toKey P h (memberOf P h i field))"
  by (auto simp: cacheAt_def dest!: bindE_Inr readProp_Inr)

lemma callPrim_Inr: "callPrim r = Inr x \<Longrightarrow> r = Inr x"
  by (auto simp: callPrim_def split: sum.splits)

lemma junctionArgs_composition:
  assumes "junctionArgs P h cache results al i0 i1 = Inr a"
  shows "\<exists>j rows.
           leftOuterJoin P h
             \<lparr>left = memberOf P h cache (toKey P h (memberOf P h i0 ''parent'')),
              right = memberOf P h cache (toKey P h (memberOf P h i0 ''child'')),
              leftKey = memberOf P h i0 ''parentKey'',
              rightKey = memberOf P h i0 ''childKey''\<rparr> = Inr j
         \<and> innerJoin P h
             \<lparr>left = j,
              right = memberOf P h cache (toKey P h (memberOf P h i1 ''child'')),
              leftKey = memberOf P h i1 ''parentKey'',
              rightKey = memberOf P h i1 ''childKey''\<rparr> = Inr rows
         \<and> a = \<lparr>parentRows = results, aliasName = al, childRows = rows,
                 parentPK = memberOf P h i0 ''parentKey'',
                 childPK = memberOf P h i1 ''childKey'',
                 fkToChild = memberOf P h i1 ''parentKey''\<rparr>"
  using assms unfolding junctionArgs_def
  by (auto dest!: bindE_Inr readProp_Inr cacheAt_Inr callPrim_Inr)

lemma argsFor_pair:
  "argsFor P h cache results (al, JArr [i0, i1]) = junctionArgs P h cache results al i0 i1"
  by (simp add: argsFor_def memberOf_def deref_def is_array_index_def is_digit_def digits_val_def)

text \<open>Rows of the primitives of the specification.\<close>

lemma toKey_specPrims: "toKey (specPrims E) H v = toKey E H v"
  by (cases v) (simp_all add: toKey_def specPrims_def)

lemma rowsOf_literal:
  "rowsOf H (JArr ys) = map (\<lambda>y. case deref H y of JObj d \<Rightarrow> d | _ \<Rightarrow> []) ys"
  by (simp add: rowsOf_def elements_def deref_def)

lemma deref_literal: "deref H (JObj d) = JObj d"
  by (simp add: deref_def)

lemma lookup_append_left:
  "k \<notin> set (map fst l) \<Longrightarrow> lookup (l @ r) k = lookup r k"
  by (simp add: lookup_def map_add_def map_of_eq_None_iff [THEN iffD2] split: option.splits)

lemma lookup_absent: "k \<notin> set (map fst l) \<Longrightarrow> lookup l k = JUndef"
  by (simp add: lookup_def map_of_eq_None_iff [THEN iffD2])

text \<open>The rows of a left outer join: a left row alone, or a left row paired with a match.\<close>

lemma specLeftOuterJoin_rows:
  assumes "specLeftOuterJoin E H a = Inr out" "y \<in> set (rowsOf H out)"
  shows "y \<in> set (rowsOf H (left a))
       \<or> (\<exists>l r. y = l @ r \<and> l \<in> set (rowsOf H (left a)) \<and> r \<in> set (rowsOf H (right a))
               \<and> matches l (toKey E H (leftKey a)) r (toKey E H (rightKey a)))"
  using assms unfolding specLeftOuterJoin_def Let_def
  by (auto simp: rowsOf_literal deref_literal paired_def split: if_splits)

lemma specInnerJoin_rows:
  assumes "specInnerJoin E H a = Inr out" "x \<in> set (elements H out)"
  shows "\<exists>l r. x = JObj (l @ r) \<and> l \<in> set (rowsOf H (left a)) \<and> r \<in> set (rowsOf H (right a))
               \<and> matches l (toKey E H (leftKey a)) r (toKey E H (rightKey a))"
  using assms unfolding specInnerJoin_def
  by (auto simp: elements_def deref_def paired_def) blast

text \<open>
  The child rows of a junction: each is a parent row, a junction row that matches it and a
  child row that matches the junction row, provided no parent row has an attribute named
  like the junction's key to the child.
\<close>

lemma junction_rows:
  assumes loj: "specLeftOuterJoin E H \<lparr>left = t0, right = tj, leftKey = pk0, rightKey = ck0\<rparr> = Inr j"
    and ij: "specInnerJoin E H \<lparr>left = j, right = tc, leftKey = pk1, rightKey = ck1\<rparr> = Inr rows"
    and free: "list_all (\<lambda>l. toKey E H pk1 \<notin> set (map fst l)) (rowsOf H t0)"
    and x: "x \<in> set (elements H rows)"
  shows "\<exists>l jr c. x = JObj ((l @ jr) @ c)
           \<and> l \<in> set (rowsOf H t0) \<and> jr \<in> set (rowsOf H tj) \<and> c \<in> set (rowsOf H tc)
           \<and> matches l (toKey E H pk0) jr (toKey E H ck0)
           \<and> matches jr (toKey E H pk1) c (toKey E H ck1)"
proof -
  from specInnerJoin_rows [OF ij x] obtain y c where
    yc: "x = JObj (y @ c)" "y \<in> set (rowsOf H j)" "c \<in> set (rowsOf H tc)"
        "matches y (toKey E H pk1) c (toKey E H ck1)"
    by auto
  from specLeftOuterJoin_rows [OF loj yc(2)]
  show ?thesis
  proof
    assume "y \<in> set (rowsOf H (left \<lparr>left = t0, right = tj, leftKey = pk0, rightKey = ck0\<rparr>))"
    then have "toKey E H pk1 \<notin> set (map fst y)" using free by (auto simp: list_all_iff)
    then have "lookup y (toKey E H pk1) = JUndef" by (rule lookup_absent)
    with yc(4) show ?thesis by (simp add: matches_def)
  next
    assume "\<exists>l r. y = l @ r
        \<and> l \<in> set (rowsOf H (left \<lparr>left = t0, right = tj, leftKey = pk0, rightKey = ck0\<rparr>))
        \<and> r \<in> set (rowsOf H (right \<lparr>left = t0, right = tj, leftKey = pk0, rightKey = ck0\<rparr>))
        \<and> matches l (toKey E H (leftKey \<lparr>left = t0, right = tj, leftKey = pk0, rightKey = ck0\<rparr>)) r
             (toKey E H (rightKey \<lparr>left = t0, right = tj, leftKey = pk0, rightKey = ck0\<rparr>))"
    then obtain l jr where lj: "y = l @ jr" "l \<in> set (rowsOf H t0)" "jr \<in> set (rowsOf H tj)"
      "matches l (toKey E H pk0) jr (toKey E H ck0)" by auto
    have "toKey E H pk1 \<notin> set (map fst l)" using free lj(2) by (auto simp: list_all_iff)
    then have "lookup (l @ jr) (toKey E H pk1) = lookup jr (toKey E H pk1)"
      by (rule lookup_append_left)
    moreover have "\<not> nullish (lookup (l @ jr) (toKey E H pk1))"
      and "lookup (l @ jr) (toKey E H pk1) = lookup c (toKey E H ck1)"
      using yc(4) lj(1) unfolding matches_def by blast+
    ultimately have "\<not> nullish (lookup jr (toKey E H pk1))"
      and "lookup jr (toKey E H pk1) = lookup c (toKey E H ck1)" by simp_all
    then have "matches jr (toKey E H pk1) c (toKey E H ck1)" unfolding matches_def by (rule conjI)
    with yc lj show ?thesis by blast
  qed
qed

text \<open>What \<open>populate\<close> leaves in a parent row: an array of child rows it was given.\<close>

lemma populated_no_row:
  "(\<And>a d. r = JRef a \<Longrightarrow> H a = Some (JObj d) \<Longrightarrow> False) \<Longrightarrow> populatedWith Q al H r"
  unfolding populatedWith_def by (auto split: jsval.splits option.splits)

lemma populated_row:
  "H a = Some (JObj d) \<Longrightarrow>
     populatedWith Q al H (JRef a) = (\<exists>xs. lookup d al = JArr xs \<and> list_all Q xs)"
  unfolding populatedWith_def by (auto split: jsval.splits)

lemma attach_row:
  "H a = Some (JObj d) \<Longrightarrow>
     attach al pk children H (JRef a) =
       H(a \<mapsto> JObj (AList.update al (JArr (filter (belongsTo d pk) children)) d))"
  by (simp add: attach_def)

lemma attach_no_row:
  "(\<And>a d. r = JRef a \<Longrightarrow> H a = Some (JObj d) \<Longrightarrow> False) \<Longrightarrow> attach al pk children H r = H"
  unfolding attach_def by (auto split: jsval.splits option.splits)

lemma lookup_update_same: "lookup (AList.update k v d) k = v"
  by (simp add: lookup_def update_conv')

lemma lookup_update_other: "k' \<noteq> k \<Longrightarrow> lookup (AList.update k v d) k' = lookup d k'"
  by (simp add: lookup_def update_conv')

lemma attach_populated_self:
  "populatedWith (\<lambda>x. x \<in> set children) al (attach al pk children H r) r"
proof (cases "\<exists>a d. r = JRef a \<and> H a = Some (JObj d)")
  case True
  then obtain a d where r: "r = JRef a" "H a = Some (JObj d)" by blast
  let ?d' = "AList.update al (JArr (filter (belongsTo d pk) children)) d"
  have "attach al pk children H r = H(a \<mapsto> JObj ?d')" using r by (simp add: attach_row)
  moreover have "populatedWith (\<lambda>x. x \<in> set children) al (H(a \<mapsto> JObj ?d')) (JRef a)"
    by (subst populated_row [of _ a ?d']) (auto simp: lookup_update_same list_all_iff)
  ultimately show ?thesis using r(1) by simp
next
  case False
  then have no: "\<And>a d. r = JRef a \<Longrightarrow> H a = Some (JObj d) \<Longrightarrow> False" by blast
  show ?thesis using attach_no_row [OF no] populated_no_row [OF no] by simp
qed

text \<open>
  Attaching under an alias to a row \<open>r\<close> keeps what another row \<open>r'\<close> holds under any alias,
  and what \<open>r\<close> itself holds under another alias.
\<close>

lemma attach_populated_other:
  assumes "populatedWith Q al' H r'" and "r' \<noteq> r \<or> al' \<noteq> al"
  shows "populatedWith Q al' (attach al pk children H r) r'"
proof (cases "\<exists>a d. r = JRef a \<and> H a = Some (JObj d)")
  case True
  then obtain a d where r: "r = JRef a" "H a = Some (JObj d)" by blast
  let ?d' = "AList.update al (JArr (filter (belongsTo d pk) children)) d"
  have att: "attach al pk children H r = H(a \<mapsto> JObj ?d')" using r by (simp add: attach_row)
  show ?thesis
  proof (cases "r' = r")
    case True
    then have ne: "al' \<noteq> al" using assms(2) by simp
    have "lookup ?d' al' = lookup d al'" using ne by (rule lookup_update_other)
    moreover have "(H(a \<mapsto> JObj ?d')) a = Some (JObj ?d')" by simp
    ultimately show ?thesis
      using assms(1) True r att populated_row [of H a d Q al']
        populated_row [of "H(a \<mapsto> JObj ?d')" a ?d' Q al']
      by simp
  next
    case False
    show ?thesis
    proof (cases "\<exists>b e. r' = JRef b \<and> H b = Some (JObj e)")
      case True
      then obtain b e where r': "r' = JRef b" "H b = Some (JObj e)" by blast
      have ne: "b \<noteq> a" using False r(1) r'(1) by auto
      then have "(H(a \<mapsto> JObj ?d')) b = Some (JObj e)" using r'(2) by simp
      then show ?thesis
        using assms(1) att r' populated_row [of H b e Q al']
          populated_row [of "H(a \<mapsto> JObj ?d')" b e Q al']
        by simp
    next
      case F: False
      have "\<And>b e. r' = JRef b \<Longrightarrow> (H(a \<mapsto> JObj ?d')) b = Some (JObj e) \<Longrightarrow> False"
      proof -
        fix b e assume b: "r' = JRef b" "(H(a \<mapsto> JObj ?d')) b = Some (JObj e)"
        have "b \<noteq> a" using False r(1) b(1) by auto
        then have "H b = Some (JObj e)" using b(2) by simp
        with F b(1) show False by blast
      qed
      then show ?thesis unfolding att by (rule populated_no_row)
    qed
  qed
next
  case False
  then have no: "\<And>a d. r = JRef a \<Longrightarrow> H a = Some (JObj d) \<Longrightarrow> False" by blast
  show ?thesis using attach_no_row [OF no] assms(1) by simp
qed

lemma attach_populated_again:
  assumes "populatedWith (\<lambda>x. x \<in> set children) al H r'"
  shows "populatedWith (\<lambda>x. x \<in> set children) al (attach al pk children H r) r'"
proof (cases "r' = r")
  case True
  then show ?thesis using attach_populated_self by simp
next
  case False
  then show ?thesis using assms by (intro attach_populated_other) auto
qed

lemma foldl_attach_keeps:
  "populatedWith (\<lambda>x. x \<in> set children) al H r' \<Longrightarrow>
     populatedWith (\<lambda>x. x \<in> set children) al (foldl (attach al pk children) H rs) r'"
  by (induction rs arbitrary: H) (auto intro: attach_populated_again)

lemma foldl_attach_populated:
  "r \<in> set rs \<Longrightarrow> populatedWith (\<lambda>x. x \<in> set children) al (foldl (attach al pk children) H rs) r"
proof (induction rs arbitrary: H)
  case Nil
  then show ?case by simp
next
  case (Cons r0 rs)
  show ?case
  proof (cases "r = r0")
    case True
    then show ?thesis
      using foldl_attach_keeps [OF attach_populated_self, where rs = rs] by simp
  next
    case False
    with Cons show ?thesis by simp
  qed
qed

lemma specPopulate_populated:
  assumes "specPopulate E H a = Inr H'" "r \<in> set (elements H (parentRows a))"
  shows "populatedWith (\<lambda>x. x \<in> set (elements H (childRows a))) (toKey E H (aliasName a)) H' r"
  using assms foldl_attach_populated unfolding specPopulate_def by auto

lemma populatedWith_mono:
  "populatedWith Q al H r \<Longrightarrow> (\<And>x. Q x \<Longrightarrow> Q' x) \<Longrightarrow> populatedWith Q' al H r"
  unfolding populatedWith_def
  by (auto simp: list_all_iff split: jsval.splits option.splits)

text \<open>A later call of \<open>populate\<close> under another alias keeps what the rows hold under this one.\<close>

lemma foldl_attach_other:
  "populatedWith Q al' H r' \<Longrightarrow> al' \<noteq> al \<Longrightarrow>
     populatedWith Q al' (foldl (attach al pk children) H rs) r'"
  by (induction rs arbitrary: H) (auto intro: attach_populated_other)

lemma afterCall_other:
  assumes "populatedWith Q al' h r'" "toKey E h (aliasName a) \<noteq> al'"
  shows "populatedWith Q al' (afterCall (specPrims E) h a) r'"
  using assms foldl_attach_other [of Q al' h r' "toKey E h (aliasName a)"]
  by (auto simp: afterCall_def specPrims_def specPopulate_def)

lemma foldl_afterCall_other:
  "populatedWith Q al' h r' \<Longrightarrow> (\<forall>a \<in> set calls. \<forall>h'. toKey E h' (aliasName a) \<noteq> al') \<Longrightarrow>
     populatedWith Q al' (foldl (afterCall (specPrims E)) h calls) r'"
  by (induction calls arbitrary: h) (auto intro: afterCall_other)

text \<open>The groups have distinct keys, so the calls of \<open>populate\<close> have distinct aliases.\<close>

lemma map_fst_addToGroup:
  "map fst (addToGroup k v gs) = (if k \<in> set (map fst gs) then map fst gs else map fst gs @ [k])"
  by (induction gs) (auto simp: rev_image_eqI)

lemma keys_addToGroup:
  "set (map fst (addToGroup k v gs)) = insert k (set (map fst gs))"
  unfolding map_fst_addToGroup by auto

lemma distinct_addToGroup:
  "distinct (map fst gs) \<Longrightarrow> distinct (map fst (addToGroup k v gs))"
proof (induction gs)
  case Nil
  then show ?case by simp
next
  case (Cons g gs)
  obtain k' vs where g: "g = (k', vs)" by (cases g)
  show ?case
  proof (cases "k = k'")
    case True
    then show ?thesis using Cons.prems g by simp
  next
    case False
    have "k' \<notin> set (map fst (addToGroup k v gs))"
      using False Cons.prems g unfolding keys_addToGroup by auto
    then show ?thesis using False Cons g by simp
  qed
qed

lemma foldl_groupStep_distinct:
  "distinct (map fst (fst acc)) \<Longrightarrow>
     distinct (map fst (fst (foldl (groupStep P H) acc is)))"
proof (induction "is" arbitrary: acc)
  case Nil
  then show ?case by simp
next
  case (Cons i "is")
  have "distinct (map fst (fst (groupStep P H acc i)))"
    using Cons.prems distinct_addToGroup by (simp add: groupStep_def Let_def)
  from Cons.IH [OF this] show ?case by simp
qed

lemma distinct_groupByAlias: "distinct (map fst (fst (groupByAlias P H is)))"
  unfolding groupByAlias_def by (rule foldl_groupStep_distinct) simp

lemma distinct_key_order:
  "distinct ks \<Longrightarrow>
     distinct (sort_key digits_val (filter is_array_index ks)
               @ filter (\<lambda>k. \<not> is_array_index k) ks)"
  by auto

lemma visits_aliases:
  "(\<exists>g. visits P H is = [g])
   \<or> (\<exists>ks. distinct ks \<and> map fst (visits P H is) = map JStr ks)"
proof -
  let ?gs = "fst (groupByAlias P H is)"
  let ?ks = "sort_key digits_val (filter is_array_index (map fst ?gs))
               @ filter (\<lambda>k. \<not> is_array_index k) (map fst ?gs)"
  have d: "distinct ?ks" using distinct_groupByAlias by (rule distinct_key_order)
  have m: "map fst (map (\<lambda>k. (JStr k, JArr (the (map_of ?gs k)))) ?ks) = map JStr ?ks"
    by (simp add: comp_def)
  show ?thesis
  proof (cases "\<exists>g. visits P H is = [g]")
    case True
    then show ?thesis by blast
  next
    case False
    then have "visits P H is = map (\<lambda>k. (JStr k, JArr (the (map_of ?gs k)))) ?ks"
      by (auto simp: visits_def Let_def split: option.splits if_splits)
    with d m show ?thesis by metis
  qed
qed

lemma filter_aliases:
  assumes "distinct ks" "map fst vs = map JStr ks"
    and "i < length (filter Q vs)" "j < length (filter Q vs)" "i \<noteq> j"
  shows "\<exists>a b. fst (filter Q vs ! i) = JStr a \<and> fst (filter Q vs ! j) = JStr b \<and> a \<noteq> b"
proof -
  have "distinct (map fst vs)" using assms(1,2) by (simp add: distinct_map inj_on_def)
  then have d: "distinct (map fst (filter Q vs))" by (rule distinct_map_filter)
  have s: "\<And>g. g \<in> set vs \<Longrightarrow> \<exists>a. fst g = JStr a"
  proof -
    fix g assume "g \<in> set vs"
    then have "fst g \<in> set (map fst vs)" by simp
    then show "\<exists>a. fst g = JStr a" unfolding assms(2) by auto
  qed
  have "filter Q vs ! i \<in> set vs" "filter Q vs ! j \<in> set vs"
    using assms(3,4) nth_mem [of i "filter Q vs"] nth_mem [of j "filter Q vs"] by auto
  then obtain a b where ab: "fst (filter Q vs ! i) = JStr a" "fst (filter Q vs ! j) = JStr b"
    using s by blast
  have "fst (filter Q vs ! i) \<noteq> fst (filter Q vs ! j)"
    using nth_eq_iff_index_eq [OF d, of i j] assms(3,4,5) by simp
  with ab show ?thesis by auto
qed

lemma other_aliases:
  assumes "i < length (filter Q (visits P H is))" "j < length (filter Q (visits P H is))" "i \<noteq> j"
  shows "toKey E h (fst (filter Q (visits P H is) ! j)) \<noteq> toKey E h' (fst (filter Q (visits P H is) ! i))"
  using visits_aliases [of P H "is"]
proof
  assume "\<exists>g. visits P H is = [g]"
  then obtain g where "visits P H is = [g]" by blast
  then have "length (filter Q (visits P H is)) \<le> 1" by simp
  with assms show ?thesis by simp
next
  assume "\<exists>ks. distinct ks \<and> map fst (visits P H is) = map JStr ks"
  then obtain ks where ks: "distinct ks" "map fst (visits P H is) = map JStr ks" by blast
  from filter_aliases [OF ks assms] show ?thesis by (auto simp: toKey_def)
qed

text \<open>
  C8, as amended.  Let \<open>integrate\<close> complete, and let the \<open>i\<close>-th of the groups of one or
  two instructions be a group of the two instructions \<open>i0\<close>, \<open>i1\<close> under the alias \<open>al\<close>;
  let \<open>h\<close> be the heap the calls of \<open>populate\<close> before the \<open>i\<close>-th have left.  First, for any
  join primitives: the \<open>i\<close>-th call of \<open>populate\<close> has the parent rows, the alias, as child
  rows \<open>innerJoin(leftOuterJoin(cache[parent0], cache[child0], parentKey0, childKey0),
  cache[child1], parentKey1, childKey1)\<close>, and \<open>parentPK = parentKey0\<close>,
  \<open>childPK = childKey1\<close>, \<open>fkToChild = parentKey1\<close>; and it is made in the heap \<open>h\<close> and
  returns.  Second, for the primitives as the specification describes them, and when no
  parent row has an attribute named \<open>parentKey1\<close>: at the end of the run every parent row
  holds under the alias an array whose rows are each a parent row, a junction row that
  matches that parent row and a child row that matches the junction row; so a child row
  linked only through a junction row that matches no parent row is in no populated array.
\<close>

theorem junction_group_composition:
  assumes "integrate P H cache joinInstructions cb = Returned JNull results s"
    and "i < length (populateCalls s)"
    and "filter (attaches P H) (visits P H (elements H joinInstructions)) ! i = (al, JArr [i0, i1])"
  shows "let h = foldl (afterCall P) H (take i (populateCalls s));
             parent0 = memberOf P h cache (toKey P h (memberOf P h i0 ''parent''));
             child0 = memberOf P h cache (toKey P h (memberOf P h i0 ''child''));
             child1 = memberOf P h cache (toKey P h (memberOf P h i1 ''child''));
             parentKey0 = memberOf P h i0 ''parentKey'';
             childKey0 = memberOf P h i0 ''childKey'';
             parentKey1 = memberOf P h i1 ''parentKey'';
             childKey1 = memberOf P h i1 ''childKey''
         in (\<exists>j rows.
               leftOuterJoin P h
                 \<lparr>left = parent0, right = child0, leftKey = parentKey0, rightKey = childKey0\<rparr>
                 = Inr j
             \<and> innerJoin P h
                 \<lparr>left = j, right = child1, leftKey = parentKey1, rightKey = childKey1\<rparr>
                 = Inr rows
             \<and> populateCalls s ! i =
                 \<lparr>parentRows = results, aliasName = al, childRows = rows,
                  parentPK = parentKey0, childPK = childKey1, fkToChild = parentKey1\<rparr>
             \<and> populate P h (populateCalls s ! i)
                 = Inr (foldl (afterCall P) H (take (Suc i) (populateCalls s))))
          \<and> (P = specPrims E
              \<and> list_all (\<lambda>l. toKey P h parentKey1 \<notin> set (map fst l)) (rowsOf h parent0)
             \<longrightarrow> list_all
                   (populatedWith
                      (throughJunction (rowsOf h parent0) (rowsOf h child0) (rowsOf h child1)
                         (toKey P h parentKey0) (toKey P h childKey0)
                         (toKey P h parentKey1) (toKey P h childKey1))
                      (toKey P h al) (heap s))
                   (elements h results))"
proof -
  let ?calls = "populateCalls s"
  let ?gs = "filter (attaches P H) (visits P H (elements H joinInstructions))"
  let ?h = "foldl (afterCall P) H (take i ?calls)"
  let ?h1 = "foldl (afterCall P) H (take (Suc i) ?calls)"
  let ?t0 = "memberOf P ?h cache (toKey P ?h (memberOf P ?h i0 ''parent''))"
  let ?tj = "memberOf P ?h cache (toKey P ?h (memberOf P ?h i0 ''child''))"
  let ?tc = "memberOf P ?h cache (toKey P ?h (memberOf P ?h i1 ''child''))"
  let ?pk0 = "memberOf P ?h i0 ''parentKey''"
  let ?ck0 = "memberOf P ?h i0 ''childKey''"
  let ?pk1 = "memberOf P ?h i1 ''parentKey''"
  let ?ck1 = "memberOf P ?h i1 ''childKey''"
  from integrate_calls [OF assms(1)]
  have fin: "heap s = foldl (afterCall P) H ?calls"
    and ord: "attachedInOrder P cache results H ?gs ?calls" by blast+
  from attachedInOrder_nth [OF ord assms(2)]
  have len: "length ?gs = length ?calls"
    and args: "argsFor P ?h cache results (?gs ! i) = Inr (?calls ! i)"
    and pop: "populate P ?h (?calls ! i) = Inr ?h1" by blast+
  have "junctionArgs P ?h cache results al i0 i1 = Inr (?calls ! i)"
    using args unfolding assms(3) argsFor_pair .
  from junctionArgs_composition [OF this] obtain j rows where
    loj: "leftOuterJoin P ?h \<lparr>left = ?t0, right = ?tj, leftKey = ?pk0, rightKey = ?ck0\<rparr> = Inr j"
    and ij: "innerJoin P ?h \<lparr>left = j, right = ?tc, leftKey = ?pk1, rightKey = ?ck1\<rparr> = Inr rows"
    and call: "?calls ! i = \<lparr>parentRows = results, aliasName = al, childRows = rows,
                  parentPK = ?pk0, childPK = ?ck1, fkToChild = ?pk1\<rparr>"
    by blast
  have partA: "\<exists>j rows.
       leftOuterJoin P ?h \<lparr>left = ?t0, right = ?tj, leftKey = ?pk0, rightKey = ?ck0\<rparr> = Inr j
     \<and> innerJoin P ?h \<lparr>left = j, right = ?tc, leftKey = ?pk1, rightKey = ?ck1\<rparr> = Inr rows
     \<and> ?calls ! i = \<lparr>parentRows = results, aliasName = al, childRows = rows,
                  parentPK = ?pk0, childPK = ?ck1, fkToChild = ?pk1\<rparr>
     \<and> populate P ?h (?calls ! i) = Inr ?h1"
    using loj ij call pop by blast
  have partB: "list_all
                 (populatedWith
                    (throughJunction (rowsOf ?h ?t0) (rowsOf ?h ?tj) (rowsOf ?h ?tc)
                       (toKey P ?h ?pk0) (toKey P ?h ?ck0) (toKey P ?h ?pk1) (toKey P ?h ?ck1))
                    (toKey P ?h al) (heap s))
                 (elements ?h results)"
    if b: "P = specPrims E
           \<and> list_all (\<lambda>l. toKey P ?h ?pk1 \<notin> set (map fst l)) (rowsOf ?h ?t0)"
  proof -
    let ?Q = "throughJunction (rowsOf ?h ?t0) (rowsOf ?h ?tj) (rowsOf ?h ?tc)
                (toKey P ?h ?pk0) (toKey P ?h ?ck0) (toKey P ?h ?pk1) (toKey P ?h ?ck1)"
    have P: "P = specPrims E" using b by simp
    have tk: "\<And>h v. toKey P h v = toKey E h v" unfolding P by (rule toKey_specPrims)
    have "list_all (\<lambda>l. toKey P ?h ?pk1 \<notin> set (map fst l)) (rowsOf ?h ?t0)"
      using b by (rule conjunct2)
    then have free: "list_all (\<lambda>l. toKey E ?h ?pk1 \<notin> set (map fst l)) (rowsOf ?h ?t0)"
      by (simp add: tk)
    have loj': "specLeftOuterJoin E ?h \<lparr>left = ?t0, right = ?tj, leftKey = ?pk0, rightKey = ?ck0\<rparr> = Inr j"
      using loj unfolding P by (simp add: specPrims_def)
    have ij': "specInnerJoin E ?h \<lparr>left = j, right = ?tc, leftKey = ?pk1, rightKey = ?ck1\<rparr> = Inr rows"
      using ij unfolding P by (simp add: specPrims_def)
    have pop': "specPopulate E ?h (?calls ! i) = Inr ?h1"
      using pop unfolding P by (simp add: specPrims_def)
    have q: "?Q x" if "x \<in> set (elements ?h rows)" for x
    proof -
      from junction_rows [OF loj' ij' free that]
      obtain l jr c where "x = JObj ((l @ jr) @ c)" "l \<in> set (rowsOf ?h ?t0)"
        "jr \<in> set (rowsOf ?h ?tj)" "c \<in> set (rowsOf ?h ?tc)"
        "matches l (toKey E ?h ?pk0) jr (toKey E ?h ?ck0)"
        "matches jr (toKey E ?h ?pk1) c (toKey E ?h ?ck1)"
        by blast
      then show ?thesis unfolding throughJunction_def list_ex_iff tk by blast
    qed
    have later: "\<forall>a \<in> set (drop (Suc i) ?calls). \<forall>h'. toKey E h' (aliasName a) \<noteq> toKey E ?h al"
    proof (intro ballI allI)
      fix a h' assume "a \<in> set (drop (Suc i) ?calls)"
      then obtain k where k: "k < length (drop (Suc i) ?calls)" "a = drop (Suc i) ?calls ! k"
        by (auto simp: in_set_conv_nth)
      let ?j = "Suc i + k"
      have j: "?j < length ?calls" "a = ?calls ! ?j" "i \<noteq> ?j" using k by auto
      have "map aliasName ?calls = map fst ?gs" using ord by (rule attachedInOrder_aliases)
      then have "map aliasName ?calls ! ?j = map fst ?gs ! ?j" by simp
      then have al_j: "aliasName a = fst (?gs ! ?j)" using j len by simp
      have al_i: "al = fst (?gs ! i)" using assms(3) by simp
      from other_aliases [of i "attaches P H" P H "elements H joinInstructions" ?j E h' ?h]
      show "toKey E h' (aliasName a) \<noteq> toKey E ?h al"
        using j assms(2) len al_j al_i by simp
    qed
    have split: "heap s = foldl (afterCall (specPrims E)) ?h1 (drop (Suc i) ?calls)"
    proof -
      have "foldl (afterCall P) H (take (Suc i) ?calls @ drop (Suc i) ?calls)
              = foldl (afterCall P) ?h1 (drop (Suc i) ?calls)"
        by (simp only: foldl_append)
      then show ?thesis using fin P by simp
    qed
    show ?thesis
      unfolding list_all_iff
    proof
      fix r assume r: "r \<in> set (elements ?h results)"
      have "populatedWith (\<lambda>x. x \<in> set (elements ?h rows)) (toKey E ?h al) ?h1 r"
        using specPopulate_populated [OF pop', of r] r by (simp add: call)
      then have "populatedWith ?Q (toKey E ?h al) ?h1 r"
        by (rule populatedWith_mono) (rule q)
      then have "populatedWith ?Q (toKey E ?h al) (heap s) r"
        unfolding split using later by (rule foldl_afterCall_other)
      then show "populatedWith ?Q (toKey P ?h al) (heap s) r" by (simp add: tk)
    qed
  qed
  show ?thesis unfolding Let_def using partA partB by blast
qed

text \<open>The theorem on the example cache: the junction row of user 3 matches no parent row.\<close>

theorem junction_group_composition_witness:
  "\<exists>s. integrate (specPrims exampleHost) exampleHeap exampleCache (JArr exampleJunction) (JFun 0)
         = Returned JNull (JRef 0) s
     \<and> list_all
          (populatedWith
             (throughJunction
                (rowsOf exampleHeap (JRef 0))
                (rowsOf exampleHeap (JArr [JObj [(''user_id'', JNum 1), (''pet_id'', JNum 10)],
                                           JObj [(''user_id'', JNum 3), (''pet_id'', JNum 11)]]))
                (rowsOf exampleHeap (JArr [JObj [(''pid'', JNum 10)], JObj [(''pid'', JNum 11)]]))
                ''id'' ''user_id'' ''pet_id'' ''pid'')
             ''pets'' (heap s))
          (elements exampleHeap (JRef 0))"
proof -
  let ?P = "specPrims exampleHost"
  let ?d0 = "[(''parent'', JStr ''user''), (''parentKey'', JStr ''id''),
            (''child'', JStr ''pet_owners''), (''childKey'', JStr ''user_id''),
            (''alias'', JStr ''pets'')]"
  let ?d1 = "[(''parent'', JStr ''pet_owners''), (''parentKey'', JStr ''pet_id''),
            (''child'', JStr ''pet''), (''childKey'', JStr ''pid''),
            (''alias'', JStr ''pets'')]"
  obtain s where run: "integrate ?P exampleHeap exampleCache (JArr exampleJunction) (JFun 0)
         = Returned JNull (JRef 0) s"
    and calls: "length (populateCalls s) = 1"
    using example_run by simp
  have i: "0 < length (populateCalls s)" using calls by simp
  have "attaches ?P exampleHeap (JStr ''pets'', JArr exampleJunction)"
    by (simp add: attaches_fresh [where xs = exampleJunction] exampleJunction_def)
  then have g: "filter (attaches ?P exampleHeap)
             (visits ?P exampleHeap (elements exampleHeap (JArr exampleJunction))) ! 0
           = (JStr ''pets'', JArr [JObj ?d0, JObj ?d1])"
    unfolding example_visits by (simp add: exampleJunction_def)
  have m: "memberOf ?P exampleHeap exampleCache
             (toKey ?P exampleHeap (memberOf ?P exampleHeap (JObj ?d0) ''parent'')) = JRef 0"
    "memberOf ?P exampleHeap exampleCache
             (toKey ?P exampleHeap (memberOf ?P exampleHeap (JObj ?d0) ''child''))
       = JArr [JObj [(''user_id'', JNum 1), (''pet_id'', JNum 10)],
               JObj [(''user_id'', JNum 3), (''pet_id'', JNum 11)]]"
    "memberOf ?P exampleHeap exampleCache
             (toKey ?P exampleHeap (memberOf ?P exampleHeap (JObj ?d1) ''child''))
       = JArr [JObj [(''pid'', JNum 10)], JObj [(''pid'', JNum 11)]]"
    "toKey ?P exampleHeap (memberOf ?P exampleHeap (JObj ?d0) ''parentKey'') = ''id''"
    "toKey ?P exampleHeap (memberOf ?P exampleHeap (JObj ?d0) ''childKey'') = ''user_id''"
    "toKey ?P exampleHeap (memberOf ?P exampleHeap (JObj ?d1) ''parentKey'') = ''pet_id''"
    "toKey ?P exampleHeap (memberOf ?P exampleHeap (JObj ?d1) ''childKey'') = ''pid''"
    "toKey ?P exampleHeap (JStr ''pets'') = ''pets''"
    by (simp_all add: memberOf_def toKey_def deref_def exampleCache_def)
  have free: "list_all (\<lambda>l. ''pet_id'' \<notin> set (map fst l)) (rowsOf exampleHeap (JRef 0))"
    by (simp add: rowsOf_def elements_def deref_def exampleHeap_def)
  note t = junction_group_composition [OF run i g, where E = exampleHost, unfolded Let_def,
      THEN conjunct2, unfolded take_0 foldl_Nil m]
  have "list_all
          (populatedWith
             (throughJunction
                (rowsOf exampleHeap (JRef 0))
                (rowsOf exampleHeap (JArr [JObj [(''user_id'', JNum 1), (''pet_id'', JNum 10)],
                                           JObj [(''user_id'', JNum 3), (''pet_id'', JNum 11)]]))
                (rowsOf exampleHeap (JArr [JObj [(''pid'', JNum 10)], JObj [(''pid'', JNum 11)]]))
                ''id'' ''user_id'' ''pet_id'' ''pid'')
             ''pets'' (heap s))
          (elements exampleHeap (JRef 0))"
    using t free by blast
  with run show ?thesis by blast
qed

text \<open>
  The claim as stated has no condition on the attributes of the parent rows.  In
  the second cache the user row carries \<open>pet_id = 11\<close> itself: the left outer join leaves
  it unpaired, the inner join on \<open>pet_id\<close> then pairs it with pet 11, and \<open>populate\<close>
  attaches that row to user 1, although no junction row matches user 1.
\<close>

theorem junction_row_of_no_parent_counterexample:
  "integrate (specPrims exampleHost) collidingHeap collidingCache (JArr exampleJunction) (JFun 0)
     = Returned JNull (JRef 0)
         \<lparr>heap = collidingHeap
            (1 \<mapsto> JObj [(''id'', JNum 1), (''pet_id'', JNum 11),
                         (''pets'', JArr [JObj [(''id'', JNum 1), (''pet_id'', JNum 11),
                                                (''pid'', JNum 11)]])]),
          populateCalls =
            [\<lparr>parentRows = JRef 0, aliasName = JStr ''pets'',
              childRows = JArr [JObj [(''id'', JNum 1), (''pet_id'', JNum 11),
                                      (''pid'', JNum 11)]],
              parentPK = JStr ''id'', childPK = JStr ''pid'', fkToChild = JStr ''pet_id''\<rparr>]\<rparr>
   \<and> \<not> list_ex (\<lambda>l. list_ex (\<lambda>jr. matches l ''id'' jr ''user_id'')
                       (rowsOf collidingHeap
                          (JArr [JObj [(''user_id'', JNum 3), (''pet_id'', JNum 11)]])))
         (rowsOf collidingHeap (JRef 0))"
proof -
  let ?P = "specPrims exampleHost"
  let ?row = "JObj [(''id'', JNum 1), (''pet_id'', JNum 11), (''pid'', JNum 11)]"
  let ?a = "\<lparr>parentRows = JRef 0, aliasName = JStr ''pets'', childRows = JArr [?row],
              parentPK = JStr ''id'', childPK = JStr ''pid'', fkToChild = JStr ''pet_id''\<rparr>"
  let ?H' = "collidingHeap
            (1 \<mapsto> JObj [(''id'', JNum 1), (''pet_id'', JNum 11), (''pets'', JArr [?row])])"
  note ev = usageCheck_def orElse_def anchorTo_def anchorRule_def deref_def memberOf_def
    toKey_def lookup_def is_array_index_def is_digit_def digits_val_def collidingHeap_def
    collidingCache_def exampleJunction_def elements_def specPrims_def exampleHost_def
    objectKeysThrows_def
  have u: "\<not> truthy (usageCheck ?P collidingHeap collidingCache (JArr exampleJunction) (JFun 0))"
    by (simp add: ev)
  have r: "memberOf ?P collidingHeap collidingCache
             (toKey ?P collidingHeap
                (memberOf ?P collidingHeap
                   (memberOf ?P collidingHeap (JArr exampleJunction) ''0'') ''parent''))
           = JRef 0"
    by (simp add: ev)
  have n: "\<not> objectKeysThrows ?P collidingHeap (memberOf ?P collidingHeap (JRef 0) ''0'')"
    by (simp add: ev)
  have v: "visits ?P collidingHeap (elements collidingHeap (JArr exampleJunction))
             = [(JStr ''pets'', JArr exampleJunction)]"
    by (simp add: ev visits_def groupByAlias_def groupStep_def aliasKey_def Let_def)
  have l: "readProp ?P collidingHeap (JArr exampleJunction) ''length'' = Inr (JNum 2)"
    and i0: "memberOf ?P collidingHeap (JArr exampleJunction) ''0'' = exampleJunction ! 0"
    and i1: "memberOf ?P collidingHeap (JArr exampleJunction) ''1'' = exampleJunction ! 1"
    by (simp_all add: readProp_def memberOf_def deref_def is_array_index_def is_digit_def
          digits_val_def exampleJunction_def)
  have a: "junctionArgs ?P collidingHeap collidingCache (JRef 0) (JStr ''pets'')
          (exampleJunction ! 0) (exampleJunction ! Suc 0) = Inr ?a"
    by (simp add: junctionArgs_def bindE_def cacheAt_def readProp_def callPrim_def
          specLeftOuterJoin_def specInnerJoin_def rowsOf_def matches_def paired_def ev)
  have p: "populate ?P collidingHeap ?a = Inr ?H'"
    by (simp add: specPrims_def specPopulate_def attach_def belongsTo_def matches_def toKey_def
          elements_def deref_def collidingHeap_def lookup_def)
  have "eachAssociation ?P collidingCache (JRef 0) (JStr ''pets'', JArr exampleJunction)
          \<lparr>heap = collidingHeap, populateCalls = []\<rparr>
        = Inr \<lparr>heap = ?H', populateCalls = [?a]\<rparr>"
    by (simp add: eachAssociation_def Let_def bindE_def l i0 i1 a doPopulate_def p)
  then have run: "integrate ?P collidingHeap collidingCache (JArr exampleJunction) (JFun 0)
     = Returned JNull (JRef 0) \<lparr>heap = ?H', populateCalls = [?a]\<rparr>"
    using u n by (simp add: integrate_def r v Let_def)
  have no: "\<not> list_ex (\<lambda>l. list_ex (\<lambda>jr. matches l ''id'' jr ''user_id'')
                       (rowsOf collidingHeap
                          (JArr [JObj [(''user_id'', JNum 3), (''pet_id'', JNum 11)]])))
         (rowsOf collidingHeap (JRef 0))"
    by (simp add: rowsOf_def elements_def deref_def collidingHeap_def matches_def lookup_def)
  from run no show ?thesis by (rule conjI)
qed

end
